theory Spec2Isabelle
  imports Complex_Main
begin

section \<open>Data model\<close>

text \<open>
  The enums of \<^verbatim>\<open>jurybot/models.py\<close>.
\<close>

datatype CaseStatus = OPEN | CONFIRMED | REJECTED | EXPIRED

datatype VoteDecision = SPAM | NOT_SPAM

text \<open>
  \<^verbatim>\<open>ChatSettings\<close> of \<^verbatim>\<open>jurybot/config.py\<close>. Python floats are modelled by the rationals
  and Python ints by \<open>int\<close>; the two \<^verbatim>\<open>Literal\<close> fields are strings, because the source
  compares them with string literals and \<^verbatim>\<open>_participation_met\<close> has a default branch.
\<close>

record ChatSettings =
  min_participation_ratio :: rat
  min_participation_count :: int
  approval_ratio :: rat
  quorum_strategy :: string
  action_on_confirm :: string
  mute_duration_sec :: int
  blacklist_enabled :: bool
  vote_timeout_sec :: int
  allow_vote_retract :: bool
  max_cases_per_user_hour :: int
  auto_close_on_deleted_msg :: bool
  min_account_age_hours :: int

text \<open>The field defaults of the class, that is \<^verbatim>\<open>ChatSettings()\<close>.\<close>

definition default_settings :: ChatSettings where
  "default_settings =
     \<lparr> min_participation_ratio = 5 / 100,
       min_participation_count = 5,
       approval_ratio = 6 / 10,
       quorum_strategy = ''ratio_and_count'',
       action_on_confirm = ''ban'',
       mute_duration_sec = 3600,
       blacklist_enabled = True,
       vote_timeout_sec = 14400,
       allow_vote_retract = True,
       max_cases_per_user_hour = 3,
       auto_close_on_deleted_msg = True,
       min_account_age_hours = 0 \<rparr>"

text \<open>
  The declared constraints of the fields: the \<^verbatim>\<open>ge\<close>/\<^verbatim>\<open>le\<close> bounds of each
  \<^verbatim>\<open>Field\<close> and the members of the two \<^verbatim>\<open>Literal\<close> types.
\<close>

definition field_bounds :: "ChatSettings \<Rightarrow> bool" where
  "field_bounds s \<longleftrightarrow>
     0 \<le> min_participation_ratio s \<and> min_participation_ratio s \<le> 1 \<and>
     1 \<le> min_participation_count s \<and>
     0 \<le> approval_ratio s \<and> approval_ratio s \<le> 1 \<and>
     60 \<le> mute_duration_sec s \<and>
     30 \<le> vote_timeout_sec s \<and>
     1 \<le> max_cases_per_user_hour s \<and>
     0 \<le> min_account_age_hours s"

definition literals_ok :: "ChatSettings \<Rightarrow> bool" where
  "literals_ok s \<longleftrightarrow>
     quorum_strategy s \<in> set [''ratio_only'', ''ratio_and_count'', ''count_only''] \<and>
     action_on_confirm s \<in> set [''ban'', ''kick'', ''delete_only'', ''mute'']"

text \<open>
  \<^verbatim>\<open>CaseRecord\<close> and \<^verbatim>\<open>VoteRecord\<close> of \<^verbatim>\<open>jurybot/models.py\<close>. Timestamps are numbers
  of seconds since the epoch. The field \<^verbatim>\<open>id\<close> is written \<open>id'\<close>. The snapshot is the dumped settings
  of the chat at creation time.
\<close>

record CaseRecord =
  id' :: int
  chat_id :: int
  message_id :: int
  offender_id :: int
  reporter_id :: int
  status :: CaseStatus
  opened_at :: int
  closes_at :: int
  poll_chat_id :: "int option"
  poll_message_id :: "int option"
  config_snapshot :: ChatSettings
  participant_target :: int

record VoteRecord =
  case_id :: int
  voter_id :: int
  decision :: VoteDecision
  updated_at :: int

section \<open>Strings\<close>

text \<open>
  \<^verbatim>\<open>str.split(sep)\<close> with a one-character separator: the pieces between the
  separators, empty pieces included; the empty string gives one empty piece.
\<close>

fun split :: "char \<Rightarrow> string \<Rightarrow> string list" where
  "split sep [] = [[]]"
| "split sep (c # cs) =
     (if c = sep then [] # split sep cs
      else (case split sep cs of
              p # ps \<Rightarrow> (c # p) # ps
            | [] \<Rightarrow> [[c]]))"

text \<open>
  \<^verbatim>\<open>int(s)\<close> on a string: surrounding white space is dropped, one sign is allowed,
  then decimal digits follow, where single underscores may stand between digits.
  Anything else is \<^verbatim>\<open>ValueError\<close>, here \<open>None\<close>. A string is a list of code points
  below 256. The white space \<^verbatim>\<open>int\<close> drops among these is the ASCII white space (tab,
  line feed, vertical tab, form feed, carriage return, space) and the two code points
  above 127 that are white space, next line (0x85) and no-break space (0xA0). The
  separators 0x1C to 0x1F, which \<^verbatim>\<open>str.strip\<close> would drop, are not dropped by \<^verbatim>\<open>int\<close>:
  \<^verbatim>\<open>int("1\x1c")\<close> raises \<^verbatim>\<open>ValueError\<close>. No code point from 128 to 255 is a decimal digit.
\<close>

definition is_space :: "char \<Rightarrow> bool" where
  "is_space c \<longleftrightarrow>
     (of_char c :: nat) \<in> set [0x09, 0x0A, 0x0B, 0x0C, 0x0D, 0x20, 0x85, 0xA0]"

definition is_digit :: "char \<Rightarrow> bool" where
  "is_digit c \<longleftrightarrow> 48 \<le> (of_char c :: nat) \<and> (of_char c :: nat) \<le> 57"

definition digit_value :: "char \<Rightarrow> nat" where
  "digit_value c = of_char c - 48"

fun parse_digits :: "nat \<Rightarrow> string \<Rightarrow> nat option" where
  "parse_digits acc [] = Some acc"
| "parse_digits acc [c] =
     (if is_digit c then Some (10 * acc + digit_value c) else None)"
| "parse_digits acc (c # d # ds) =
     (if is_digit c then parse_digits (10 * acc + digit_value c) (d # ds)
      else if c = CHR ''_'' \<and> is_digit d then parse_digits (10 * acc + digit_value d) ds
      else None)"

definition parse_nat :: "string \<Rightarrow> nat option" where
  "parse_nat s =
     (case s of
        [] \<Rightarrow> None
      | c # cs \<Rightarrow> if is_digit c then parse_digits (digit_value c) cs else None)"

definition strip :: "string \<Rightarrow> string" where
  "strip s = rev (dropWhile is_space (rev (dropWhile is_space s)))"

definition py_int :: "string \<Rightarrow> int option" where
  "py_int s =
     (case strip s of
        [] \<Rightarrow> None
      | c # cs \<Rightarrow>
          if c = CHR ''-'' then map_option (\<lambda>n. - int n) (parse_nat cs)
          else if c = CHR ''+'' then map_option int (parse_nat cs)
          else map_option int (parse_nat (c # cs)))"

text \<open>\<^verbatim>\<open>str(n)\<close> for an integer: the decimal digits, with a minus sign when negative.\<close>

definition digit_char :: "nat \<Rightarrow> char" where
  "digit_char d = ''0123456789'' ! d"

function str_nat :: "nat \<Rightarrow> string" where
  "str_nat n = (if n < 10 then [digit_char n] else str_nat (n div 10) @ [digit_char (n mod 10)])"
  by pat_completeness auto
termination
  by (relation "measure (\<lambda>n. n)") auto

declare str_nat.simps [simp del]

definition str_int :: "int \<Rightarrow> string" where
  "str_int i = (if i < 0 then CHR ''-'' # str_nat (nat (- i)) else str_nat (nat i))"

section \<open>Quorum evaluation\<close>

text \<open>
  \<^verbatim>\<open>CaseService._participation_met\<close>: the \<^verbatim>\<open>match\<close> on the strategy, with the
  combined rule as the default branch.
\<close>

definition participation_met :: "int \<Rightarrow> ChatSettings \<Rightarrow> int \<Rightarrow> bool" where
  "participation_met tot settings target =
     (let count_ok = (tot \<ge> min_participation_count settings);
          ratio_ok = (tot \<ge> target)
      in if quorum_strategy settings = ''ratio_only'' then ratio_ok
         else if quorum_strategy settings = ''count_only'' then count_ok
         else ratio_ok \<and> count_ok)"

text \<open>
  The participant target of a new case, lines 106 to 110 of \<^verbatim>\<open>handle_report\<close>:
  \<^verbatim>\<open>max(settings.min_participation_count, math.ceil(settings.min_participation_ratio * chat_member_count))\<close>.
  The product is a product of binary floating-point numbers in the source, which rounds
  (\<^verbatim>\<open>0.07 * 100\<close> is \<^verbatim>\<open>7.000000000000001\<close> there, with ceiling 8). It is the parameter
  \<open>float_mul\<close>, of which nothing is assumed but that its value is a number.
\<close>

definition handle_report_participant_target ::
  "(rat \<Rightarrow> int \<Rightarrow> rat) \<Rightarrow> ChatSettings \<Rightarrow> int \<Rightarrow> int" where
  "handle_report_participant_target float_mul settings chat_member_count =
     max (min_participation_count settings)
         (ceiling (float_mul (min_participation_ratio settings) chat_member_count))"

section \<open>Settings resolver\<close>

text \<open>
  The override map of a chat is the JSON object kept in the \<^verbatim>\<open>chats\<close> table. It is
  modelled for the entries \<^verbatim>\<open>update_setting\<close> writes: a recognised field name with a
  value of the field's type. The map is a list of such assignments, applied in order.
\<close>

datatype field_update =
    Min_participation_ratio rat
  | Min_participation_count int
  | Approval_ratio rat
  | Quorum_strategy string
  | Action_on_confirm string
  | Mute_duration_sec int
  | Blacklist_enabled bool
  | Vote_timeout_sec int
  | Allow_vote_retract bool
  | Max_cases_per_user_hour int
  | Auto_close_on_deleted_msg bool
  | Min_account_age_hours int

fun set_field :: "field_update \<Rightarrow> ChatSettings \<Rightarrow> ChatSettings" where
  "set_field (Min_participation_ratio v) s = s\<lparr>min_participation_ratio := v\<rparr>"
| "set_field (Min_participation_count v) s = s\<lparr>min_participation_count := v\<rparr>"
| "set_field (Approval_ratio v) s = s\<lparr>approval_ratio := v\<rparr>"
| "set_field (Quorum_strategy v) s = s\<lparr>quorum_strategy := v\<rparr>"
| "set_field (Action_on_confirm v) s = s\<lparr>action_on_confirm := v\<rparr>"
| "set_field (Mute_duration_sec v) s = s\<lparr>mute_duration_sec := v\<rparr>"
| "set_field (Blacklist_enabled v) s = s\<lparr>blacklist_enabled := v\<rparr>"
| "set_field (Vote_timeout_sec v) s = s\<lparr>vote_timeout_sec := v\<rparr>"
| "set_field (Allow_vote_retract v) s = s\<lparr>allow_vote_retract := v\<rparr>"
| "set_field (Max_cases_per_user_hour v) s = s\<lparr>max_cases_per_user_hour := v\<rparr>"
| "set_field (Auto_close_on_deleted_msg v) s = s\<lparr>auto_close_on_deleted_msg := v\<rparr>"
| "set_field (Min_account_age_hours v) s = s\<lparr>min_account_age_hours := v\<rparr>"

text \<open>
  \<^verbatim>\<open>BaseModel.model_copy(update=...)\<close> of the validation library copies the instance
  and stores the given values in the copy's fields; it runs no validator on them.
\<close>

definition model_copy :: "ChatSettings \<Rightarrow> field_update list \<Rightarrow> ChatSettings" where
  "model_copy self update = fold set_field update self"

text \<open>\<^verbatim>\<open>ChatSettings.merge\<close>: \<^verbatim>\<open>self.model_copy(update=overrides or {})\<close>.\<close>

definition merge :: "ChatSettings \<Rightarrow> field_update list option \<Rightarrow> ChatSettings" where
  "merge self overrides =
     model_copy self (case overrides of None \<Rightarrow> [] | Some d \<Rightarrow> d)"

text \<open>
  Exceptions that leave the modelled functions: the \<^verbatim>\<open>ValueError\<close> of a tuple
  unpacking with too many values, the \<^verbatim>\<open>ValidationError\<close> of the constructor, the
  \<^verbatim>\<open>OverflowError\<close> of date arithmetic, and \<open>TransportError\<close>, which stands for every
  exception of the transport client that is not a \<^verbatim>\<open>TelegramBadRequest\<close>
  (\<^verbatim>\<open>TelegramForbiddenError\<close>, \<^verbatim>\<open>TelegramNetworkError\<close>, \<^verbatim>\<open>TelegramRetryAfter\<close> and so
  on). The service has no \<^verbatim>\<open>except\<close> clause for any of these.
\<close>

datatype exn = ValueError | ValidationError | OverflowError | TransportError

text \<open>
  The constructor call \<^verbatim>\<open>ChatSettings(**case.config_snapshot)\<close>, which validates every
  field of the snapshot.
\<close>

definition ChatSettings_init :: "ChatSettings \<Rightarrow> exn + ChatSettings" where
  "ChatSettings_init snapshot =
     (if field_bounds snapshot \<and> literals_ok snapshot then Inr snapshot
      else Inl ValidationError)"

section \<open>Transport and store\<close>

text \<open>
  The user-facing texts are Chinese string literals in the source; each is one
  constructor here. \<open>reply\<close> lists the answers of \<^verbatim>\<open>handle_vote_callback\<close> in source
  order: invalid vote data, unknown action, invalid case, case not found or closed,
  case already ended, retraction not enabled in this chat, vote not updated, vote
  recorded. \<open>status_text\<close> is the line chosen in \<^verbatim>\<open>_close_case\<close>: vote timed out, or not
  enough votes. \<open>msg_text\<close> is the text of a ballot message: the live poll text with
  the interpolated values of \<^verbatim>\<open>_format_poll_text\<close> (case id, target, approval ratio,
  spam votes, not-spam votes, total, remaining, deadline), the closing text, and the
  confirmation text.
\<close>

datatype reply =
    InvalidVoteData | UnknownAction | InvalidCase | CaseNotFound
  | CaseEnded | RetractDisabled | VoteNotUpdated | VoteRecorded

datatype status_text = TimeoutText | InsufficientVotesText

datatype msg_text =
    PollText int int rat int int int int int
  | ClosedText status_text int
  | ConfirmedText int

text \<open>
  The calls made on the transport client. A call succeeds, or raises
  \<^verbatim>\<open>TelegramBadRequest\<close>, the exception class the source handles, or raises an
  exception of another class (\<open>OtherError\<close>), which the source does not handle; the
  client (\<^verbatim>\<open>self.bot\<close>) is a function that decides which. A keyboard is the list of rows
  of the \<^verbatim>\<open>callback_data\<close> of its buttons.
\<close>

datatype bot_call =
    DeleteMessage int int
  | BanChatMember int int
  | UnbanChatMember int int
  | RestrictChatMember int int int
  | EditMessageText int int msg_text "string list list option"

datatype outcome = Success | TelegramBadRequest | OtherError

type_synonym transport = "bot_call \<Rightarrow> outcome"

text \<open>
  The effects of the service in the order they happen: transport calls with their
  outcome, writes of a case status, blacklist writes, callback answers, sleeps, and
  the entry into \<^verbatim>\<open>_enforce_actions\<close> for a case id.
\<close>

datatype event =
    BotCall bot_call outcome
  | SetCaseStatus int CaseStatus
  | BlacklistAdd int int "string option"
  | Answer reply bool
  | Sleep int
  | EnforceActions int

record BlacklistRow =
  bl_chat_id :: int
  bl_user_id :: int
  bl_reason :: "string option"
  bl_added_at :: int

text \<open>
  The tables \<^verbatim>\<open>cases\<close>, \<^verbatim>\<open>votes\<close> and \<^verbatim>\<open>blacklist\<close> of \<^verbatim>\<open>jurybot/storage.py\<close> as lists
  of rows, and the trace of effects.
\<close>

record world =
  cases :: "CaseRecord list"
  votes :: "VoteRecord list"
  blacklist :: "BlacklistRow list"
  trace :: "event list"


definition vote_keys_distinct :: "world \<Rightarrow> bool" where
  "vote_keys_distinct w \<longleftrightarrow> distinct (map (\<lambda>v. (case_id v, voter_id v)) (votes w))"

text \<open>
  \<^verbatim>\<open>Storage.get_case\<close>, \<^verbatim>\<open>set_case_status\<close>, \<^verbatim>\<open>list_open_cases\<close>. The ids are those the
  table can hold, 64-bit integers; the lookup of an integer outside that range, which
  the database driver refuses with \<^verbatim>\<open>OverflowError\<close>, is not part of the model.
\<close>

definition get_case :: "world \<Rightarrow> int \<Rightarrow> CaseRecord option" where
  "get_case w cid = find (\<lambda>c. id' c = cid) (cases w)"

definition set_case_status :: "int \<Rightarrow> CaseStatus \<Rightarrow> world \<Rightarrow> world" where
  "set_case_status cid st w =
     w\<lparr>cases := map (\<lambda>c. if id' c = cid then c\<lparr>status := st\<rparr> else c) (cases w),
       trace := trace w @ [SetCaseStatus cid st]\<rparr>"

definition list_open_cases :: "world \<Rightarrow> CaseRecord list" where
  "list_open_cases w = filter (\<lambda>c. status c = OPEN) (cases w)"

text \<open>
  \<^verbatim>\<open>Storage.record_vote\<close>: insert, or on a conflict of the key (case, voter) update the
  decision and the time of the existing row. \<^verbatim>\<open>retract_vote\<close> deletes the row and
  \<^verbatim>\<open>get_votes\<close> selects the rows of a case.
\<close>

fun upsert_vote :: "VoteRecord \<Rightarrow> VoteRecord list \<Rightarrow> VoteRecord list" where
  "upsert_vote r [] = [r]"
| "upsert_vote r (x # xs) =
     (if case_id x = case_id r \<and> voter_id x = voter_id r
      then x\<lparr>decision := decision r, updated_at := updated_at r\<rparr> # xs
      else x # upsert_vote r xs)"

definition record_vote :: "int \<Rightarrow> int \<Rightarrow> VoteDecision \<Rightarrow> int \<Rightarrow> world \<Rightarrow> world" where
  "record_vote cid vid d now w =
     w\<lparr>votes := upsert_vote
          \<lparr>case_id = cid, voter_id = vid, decision = d, updated_at = now\<rparr> (votes w)\<rparr>"

definition retract_vote :: "int \<Rightarrow> int \<Rightarrow> world \<Rightarrow> world" where
  "retract_vote cid vid w =
     w\<lparr>votes := filter (\<lambda>v. \<not> (case_id v = cid \<and> voter_id v = vid)) (votes w)\<rparr>"

definition get_votes :: "world \<Rightarrow> int \<Rightarrow> VoteRecord list" where
  "get_votes w cid = filter (\<lambda>v. case_id v = cid) (votes w)"

text \<open>\<^verbatim>\<open>Storage.blacklist_add\<close> (an upsert on the key (chat, user)) and \<^verbatim>\<open>blacklist_contains\<close>.\<close>

fun upsert_blacklist :: "BlacklistRow \<Rightarrow> BlacklistRow list \<Rightarrow> BlacklistRow list" where
  "upsert_blacklist r [] = [r]"
| "upsert_blacklist r (x # xs) =
     (if bl_chat_id x = bl_chat_id r \<and> bl_user_id x = bl_user_id r
      then x\<lparr>bl_reason := bl_reason r, bl_added_at := bl_added_at r\<rparr> # xs
      else x # upsert_blacklist r xs)"

definition blacklist_add :: "int \<Rightarrow> int \<Rightarrow> string option \<Rightarrow> int \<Rightarrow> world \<Rightarrow> world" where
  "blacklist_add chat user reason now w =
     w\<lparr>blacklist := upsert_blacklist
          \<lparr>bl_chat_id = chat, bl_user_id = user, bl_reason = reason, bl_added_at = now\<rparr>
          (blacklist w),
       trace := trace w @ [BlacklistAdd chat user reason]\<rparr>"

definition blacklist_contains :: "world \<Rightarrow> int \<Rightarrow> int \<Rightarrow> bool" where
  "blacklist_contains w chat user =
     list_ex (\<lambda>r. bl_chat_id r = chat \<and> bl_user_id r = user) (blacklist w)"

text \<open>A transport call: the client decides the outcome, and the call is logged.\<close>

definition call :: "transport \<Rightarrow> bot_call \<Rightarrow> world \<Rightarrow> outcome \<times> world" where
  "call client c w = (client c, w\<lparr>trace := trace w @ [BotCall c (client c)]\<rparr>)"

text \<open>
  A transport call inside \<^verbatim>\<open>try ... except TelegramBadRequest\<close>, the form of every
  transport call of the service: a \<^verbatim>\<open>TelegramBadRequest\<close> is handled (logged or
  dropped) and execution goes on after the \<^verbatim>\<open>try\<close> statement; an exception of another
  class leaves the statement and the function. The result is the exception that
  leaves, if any, and the world.
\<close>

definition try_call :: "transport \<Rightarrow> bot_call \<Rightarrow> world \<Rightarrow> exn option \<times> world" where
  "try_call client c w =
     (case call client c w of
        (Success, w1) \<Rightarrow> (None, w1)
      | (TelegramBadRequest, w1) \<Rightarrow> (None, w1)
      | (OtherError, w1) \<Rightarrow> (Some TransportError, w1))"

definition sleep :: "int \<Rightarrow> world \<Rightarrow> world" where
  "sleep d w = w\<lparr>trace := trace w @ [Sleep d]\<rparr>"

text \<open>
  Date arithmetic of the standard library. \<^verbatim>\<open>timedelta(seconds=n)\<close> raises
  \<^verbatim>\<open>OverflowError\<close> when the duration is not within 999999999 days in either
  direction. The sum of an aware UTC \<^verbatim>\<open>datetime\<close> and a \<^verbatim>\<open>timedelta\<close> raises
  \<^verbatim>\<open>OverflowError\<close> when the date is not within the years 1 to 9999; the bounds are
  the seconds since the epoch of the first second of year 1 and the last second of
  year 9999.
\<close>

definition timedelta :: "int \<Rightarrow> exn + int" where
  "timedelta seconds =
     (if - 86399999913600 \<le> seconds \<and> seconds \<le> 86399999999999 then Inr seconds
      else Inl OverflowError)"

definition datetime_add :: "int \<Rightarrow> int \<Rightarrow> exn + int" where
  "datetime_add t d =
     (if - 62135596800 \<le> t + d \<and> t + d \<le> 253402300799 then Inr (t + d)
      else Inl OverflowError)"

section \<open>Case service\<close>

text \<open>
  The functions of \<^verbatim>\<open>CaseService\<close> in \<^verbatim>\<open>jurybot/services/case.py\<close>. The clock is read
  once per operation and passed as \<open>now\<close>. Every function returns the world it leaves
  and the exception that leaves it, if any: an exception ends the function at the
  point where it is raised, and the callers up to the entry point likewise. The
  \<^verbatim>\<open>case\<close> object a function receives is the parameter \<open>c\<close>; a function that assigns
  to its \<^verbatim>\<open>status\<close> returns the updated object with the exception, beside the world.
\<close>

definition build_keyboard :: "int \<Rightarrow> bool \<Rightarrow> string list list" where
  "build_keyboard cid allow_retract =
     [[''jury:vote:'' @ str_int cid @ '':spam'', ''jury:vote:'' @ str_int cid @ '':not'']]
     @ (if allow_retract then [[''jury:vote:'' @ str_int cid @ '':retract'']] else [])"

definition format_poll_text ::
  "CaseRecord \<Rightarrow> ChatSettings \<Rightarrow> int \<Rightarrow> int \<Rightarrow> int \<Rightarrow> msg_text" where
  "format_poll_text c settings spam_votes not_spam_votes total_voters =
     (let remaining = max (participant_target c - total_voters) 0
      in PollText (id' c) (participant_target c) (approval_ratio settings)
           spam_votes not_spam_votes total_voters remaining (closes_at c))"

text \<open>
  The test \<^verbatim>\<open>if case.poll_chat_id and case.poll_message_id\<close>: both are present and
  not zero.
\<close>

definition poll_location :: "CaseRecord \<Rightarrow> (int \<times> int) option" where
  "poll_location c =
     (case poll_chat_id c of
        None \<Rightarrow> None
      | Some pc \<Rightarrow>
          (case poll_message_id c of
             None \<Rightarrow> None
           | Some pm \<Rightarrow> if pc \<noteq> 0 \<and> pm \<noteq> 0 then Some (pc, pm) else None))"

text \<open>
  \<^verbatim>\<open>bot.edit_message_text\<close> inside \<^verbatim>\<open>try ... except TelegramBadRequest\<close>, as at each of
  its three call sites.
\<close>

definition edit_message_text ::
  "transport \<Rightarrow> int \<Rightarrow> int \<Rightarrow> msg_text \<Rightarrow> string list list option \<Rightarrow> world
     \<Rightarrow> exn option \<times> world" where
  "edit_message_text client chat msg txt kb w =
     try_call client (EditMessageText chat msg txt kb) w"

definition ban_user :: "transport \<Rightarrow> int \<Rightarrow> int \<Rightarrow> world \<Rightarrow> exn option \<times> world" where
  "ban_user client chat user w = try_call client (BanChatMember chat user) w"

text \<open>
  \<^verbatim>\<open>_kick_user\<close>: ban, sleep one second, unban, all inside one \<^verbatim>\<open>try\<close>; a ban that
  fails with \<^verbatim>\<open>TelegramBadRequest\<close> skips the rest.
\<close>

definition kick_user :: "transport \<Rightarrow> int \<Rightarrow> int \<Rightarrow> world \<Rightarrow> exn option \<times> world" where
  "kick_user client chat user w =
     (case call client (BanChatMember chat user) w of
        (Success, w1) \<Rightarrow> try_call client (UnbanChatMember chat user) (sleep 1 w1)
      | (TelegramBadRequest, w1) \<Rightarrow> (None, w1)
      | (OtherError, w1) \<Rightarrow> (Some TransportError, w1))"

text \<open>
  \<^verbatim>\<open>_mute_user\<close>: the end of the mute is computed before the \<^verbatim>\<open>try\<close> statement, as
  \<^verbatim>\<open>datetime.now(tz=timezone.utc) + timedelta(seconds=settings.mute_duration_sec)\<close>.
\<close>

definition mute_until :: "int \<Rightarrow> ChatSettings \<Rightarrow> exn + int" where
  "mute_until now settings =
     (case timedelta (mute_duration_sec settings) of
        Inl e \<Rightarrow> Inl e
      | Inr d \<Rightarrow> datetime_add now d)"

definition mute_user ::
  "transport \<Rightarrow> int \<Rightarrow> int \<Rightarrow> int \<Rightarrow> ChatSettings \<Rightarrow> world \<Rightarrow> exn option \<times> world" where
  "mute_user client now chat user settings w =
     (case mute_until now settings of
        Inl e \<Rightarrow> (Some e, w)
      | Inr until_date \<Rightarrow> try_call client (RestrictChatMember chat user until_date) w)"

text \<open>
  \<^verbatim>\<open>_enforce_actions\<close>: the message delete, the early return for \<^verbatim>\<open>delete_only\<close>, the
  member action, the blacklist write. The entry into the function is logged with the
  id of the case.
\<close>

definition enforce_actions ::
  "transport \<Rightarrow> int \<Rightarrow> CaseRecord \<Rightarrow> ChatSettings \<Rightarrow> world \<Rightarrow> exn option \<times> world" where
  "enforce_actions client now c settings w0 =
     (let w = w0\<lparr>trace := trace w0 @ [EnforceActions (id' c)]\<rparr>
      in case try_call client (DeleteMessage (chat_id c) (message_id c)) w of
           (Some e, w1) \<Rightarrow> (Some e, w1)
         | (None, w1) \<Rightarrow>
             if action_on_confirm settings = ''delete_only'' then (None, w1)
             else
               (case (if action_on_confirm settings = ''ban''
                        then ban_user client (chat_id c) (offender_id c) w1
                      else if action_on_confirm settings = ''kick''
                        then kick_user client (chat_id c) (offender_id c) w1
                      else if action_on_confirm settings = ''mute''
                        then mute_user client now (chat_id c) (offender_id c) settings w1
                      else (None, w1)) of
                  (Some e, w2) \<Rightarrow> (Some e, w2)
                | (None, w2) \<Rightarrow>
                    if blacklist_enabled settings
                    then (None, blacklist_add (chat_id c) (offender_id c)
                                  (Some (''Case #'' @ str_int (id' c))) now w2)
                    else (None, w2)))"

text \<open>
  \<^verbatim>\<open>_close_case\<close>, \<^verbatim>\<open>_confirm_case\<close>, \<^verbatim>\<open>_maybe_resolve\<close> and \<^verbatim>\<open>_refresh_poll\<close>. The
  approval ratio is the quotient of the two counts.
\<close>

definition close_case ::
  "transport \<Rightarrow> CaseRecord \<Rightarrow> ChatSettings \<Rightarrow> bool \<Rightarrow> world
     \<Rightarrow> (exn option \<times> CaseRecord) \<times> world" where
  "close_case client c settings expired w =
     (let new_status = (if expired then EXPIRED else REJECTED);
          w1 = set_case_status (id' c) new_status w;
          c1 = c\<lparr>status := new_status\<rparr>;
          status_text = (if expired then TimeoutText else InsufficientVotesText)
      in case poll_location c1 of
           Some (pc, pm) \<Rightarrow>
             (case edit_message_text client pc pm (ClosedText status_text (id' c1)) None w1 of
                (e, w2) \<Rightarrow> ((e, c1), w2))
         | None \<Rightarrow> ((None, c1), w1))"

definition confirm_case ::
  "transport \<Rightarrow> int \<Rightarrow> CaseRecord \<Rightarrow> ChatSettings \<Rightarrow> world
     \<Rightarrow> (exn option \<times> CaseRecord) \<times> world" where
  "confirm_case client now c settings w =
     (let w1 = set_case_status (id' c) CONFIRMED w;
          c1 = c\<lparr>status := CONFIRMED\<rparr>
      in case enforce_actions client now c1 settings w1 of
           (Some e, w2) \<Rightarrow> ((Some e, c1), w2)
         | (None, w2) \<Rightarrow>
             (case poll_location c1 of
                Some (pc, pm) \<Rightarrow>
                  (case edit_message_text client pc pm (ConfirmedText (id' c1)) None w2 of
                     (e, w3) \<Rightarrow> ((e, c1), w3))
              | None \<Rightarrow> ((None, c1), w2)))"

definition maybe_resolve ::
  "transport \<Rightarrow> int \<Rightarrow> CaseRecord \<Rightarrow> ChatSettings \<Rightarrow> int \<Rightarrow> int \<Rightarrow> int \<Rightarrow> world
     \<Rightarrow> (exn option \<times> CaseRecord) \<times> world" where
  "maybe_resolve client now c settings spam_votes not_spam_votes tot w =
     (if status c \<noteq> OPEN then ((None, c), w)
      else if now \<ge> closes_at c then close_case client c settings True w
      else if tot = 0 then ((None, c), w)
      else
        (let participation_ok = participation_met tot settings (participant_target c);
             ratio = (of_int spam_votes :: rat) / of_int tot;
             ratio_ok = (ratio \<ge> approval_ratio settings)
         in if participation_ok \<and> ratio_ok then confirm_case client now c settings w
            else ((None, c), w)))"

definition refresh_poll ::
  "transport \<Rightarrow> int \<Rightarrow> CaseRecord \<Rightarrow> ChatSettings \<Rightarrow> world \<Rightarrow> exn option \<times> world" where
  "refresh_poll client now c settings w =
     (let vs = get_votes w (id' c);
          spam_votes = int (length (filter (\<lambda>v. decision v = SPAM) vs));
          not_spam_votes = int (length (filter (\<lambda>v. decision v = NOT_SPAM) vs));
          tot = int (length vs)
      in case maybe_resolve client now c settings spam_votes not_spam_votes tot w of
           ((Some e, c1), w1) \<Rightarrow> (Some e, w1)
         | ((None, c1), w1) \<Rightarrow>
             if status c1 \<noteq> OPEN then (None, w1)
             else
               (case poll_location c1 of
                  Some (pc, pm) \<Rightarrow>
                    edit_message_text client pc pm
                      (format_poll_text c1 settings spam_votes not_spam_votes tot)
                      (Some (build_keyboard (id' c1) (allow_vote_retract settings))) w1
                | None \<Rightarrow> (None, w1)))"

text \<open>
  A callback query: its data and the id of the user who pressed the button.
  \<^verbatim>\<open>callback.answer(text, show_alert)\<close> is logged as an event; the answer is taken to
  be delivered, so that the statements that follow it are reached.
\<close>

record CallbackQuery =
  data :: "string option"
  from_user :: int

definition answer :: "reply \<Rightarrow> bool \<Rightarrow> world \<Rightarrow> world" where
  "answer r show_alert w = w\<lparr>trace := trace w @ [Answer r show_alert]\<rparr>"

text \<open>
  \<^verbatim>\<open>handle_vote_callback\<close>. The unpacking of \<^verbatim>\<open>parts\<close> into four names raises
  \<^verbatim>\<open>ValueError\<close> when there are more than four parts. Both branches of the source set
  \<^verbatim>\<open>vote_updated\<close>, so the test of that flag never fires and is left out. The result is
  the exception that left the function, if any, and the world. The case object read
  by \<^verbatim>\<open>get_case\<close> is the one passed to \<^verbatim>\<open>_refresh_poll\<close> after the vote is written and
  answered.
\<close>

definition handle_vote_callback ::
  "transport \<Rightarrow> int \<Rightarrow> CallbackQuery \<Rightarrow> world \<Rightarrow> exn option \<times> world" where
  "handle_vote_callback client now callback w =
     (let parts = split (CHR '':'') (case data callback of None \<Rightarrow> [] | Some d \<Rightarrow> d)
      in if length parts < 4 then (None, answer InvalidVoteData True w)
         else if length parts \<noteq> 4 then (Some ValueError, w)
         else
           (let action = parts ! 1; case_id_str = parts ! 2; decision_str = parts ! 3
            in if action \<noteq> ''vote'' then (None, answer UnknownAction True w)
               else
                 (case py_int case_id_str of
                    None \<Rightarrow> (None, answer InvalidCase True w)
                  | Some cid \<Rightarrow>
                      (case get_case w cid of
                         None \<Rightarrow> (None, answer CaseNotFound True w)
                       | Some c \<Rightarrow>
                           if status c \<noteq> OPEN then (None, answer CaseEnded False w)
                           else
                             (case ChatSettings_init (config_snapshot c) of
                                Inl e \<Rightarrow> (Some e, w)
                              | Inr settings \<Rightarrow>
                                  (let voter = from_user callback
                                   in if decision_str = ''retract'' then
                                        if \<not> allow_vote_retract settings
                                        then (None, answer RetractDisabled True w)
                                        else refresh_poll client now c settings
                                               (answer VoteRecorded False
                                                 (retract_vote (id' c) voter w))
                                      else
                                        (let decision =
                                               (if decision_str = ''spam'' then SPAM
                                                else NOT_SPAM)
                                         in refresh_poll client now c settings
                                              (answer VoteRecorded False
                                                (record_vote (id' c) voter decision now
                                                   w)))))))))"

text \<open>
  \<^verbatim>\<open>_schedule_expiry_check\<close>: the sleep until the deadline, then the re-read of the case.
\<close>

definition schedule_expiry_check ::
  "transport \<Rightarrow> int \<Rightarrow> int \<Rightarrow> int \<Rightarrow> world \<Rightarrow> exn option \<times> world" where
  "schedule_expiry_check client now cid closes w =
     (let delay = max (closes - now) 0;
          w1 = sleep delay w
      in case get_case w1 cid of
           None \<Rightarrow> (None, w1)
         | Some c \<Rightarrow>
             if status c \<noteq> OPEN then (None, w1)
             else
               (case ChatSettings_init (config_snapshot c) of
                  Inl e \<Rightarrow> (Some e, w1)
                | Inr settings \<Rightarrow>
                    (case close_case client c settings True w1 of
                       ((e, c1), w2) \<Rightarrow> (e, w2))))"

text \<open>
  \<^verbatim>\<open>expire_overdue_cases\<close>: the loop over the cases listed as open. An exception, of
  the constructor or of \<^verbatim>\<open>_close_case\<close>, ends the loop, with the world as it is at that
  point.
\<close>

fun expire_loop :: "transport \<Rightarrow> int \<Rightarrow> CaseRecord list \<Rightarrow> world \<Rightarrow> exn option \<times> world" where
  "expire_loop client now [] w = (None, w)"
| "expire_loop client now (c # rest) w =
     (if now \<ge> closes_at c then
        (case ChatSettings_init (config_snapshot c) of
           Inl e \<Rightarrow> (Some e, w)
         | Inr settings \<Rightarrow>
             (case close_case client c settings True w of
                ((Some e, c1), w1) \<Rightarrow> (Some e, w1)
              | ((None, c1), w1) \<Rightarrow> expire_loop client now rest w1))
      else expire_loop client now rest w)"

definition expire_overdue_cases :: "transport \<Rightarrow> int \<Rightarrow> world \<Rightarrow> exn option \<times> world" where
  "expire_overdue_cases client now w = expire_loop client now (list_open_cases w) w"

text \<open>
  The three ways an open case is evaluated: a vote callback, the timer of a case
  firing, and the sweep at start-up.
\<close>

datatype evaluation =
    VoteEvent int CallbackQuery
  | TimerFired int int int
  | StartupSweep int

fun evaluate :: "transport \<Rightarrow> evaluation \<Rightarrow> world \<Rightarrow> exn option \<times> world" where
  "evaluate client (VoteEvent now callback) w = handle_vote_callback client now callback w"
| "evaluate client (TimerFired now cid closes) w = schedule_expiry_check client now cid closes w"
| "evaluate client (StartupSweep now) w = expire_overdue_cases client now w"

text \<open>The events an operation added to the trace.\<close>

definition new_events :: "world \<Rightarrow> world \<Rightarrow> event list" where
  "new_events w w' = drop (length (trace w)) (trace w')"

text \<open>
  Two classes of events. \<open>action_event\<close>: what the steps of \<^verbatim>\<open>_enforce_actions\<close> and the
  edit of the ballot log, that is transport calls, the sleep of a kick and the
  blacklist write. \<open>quiet_event\<close>: events that neither write a status nor belong to
  enforcement, that is answers, sleeps and edits of a ballot message.
  \<open>status_write\<close>: the writes of a case status.
\<close>

fun action_event :: "event \<Rightarrow> bool" where
  "action_event (BotCall c r) = True"
| "action_event (BlacklistAdd chat user reason) = True"
| "action_event (Sleep d) = True"
| "action_event (SetCaseStatus k st) = False"
| "action_event (Answer r a) = False"
| "action_event (EnforceActions k) = False"

fun quiet_event :: "event \<Rightarrow> bool" where
  "quiet_event (BotCall (EditMessageText chat msg txt kb) r) = True"
| "quiet_event (BotCall (DeleteMessage chat msg) r) = False"
| "quiet_event (BotCall (BanChatMember chat user) r) = False"
| "quiet_event (BotCall (UnbanChatMember chat user) r) = False"
| "quiet_event (BotCall (RestrictChatMember chat user until) r) = False"
| "quiet_event (Answer r a) = True"
| "quiet_event (Sleep d) = True"
| "quiet_event (SetCaseStatus k st) = False"
| "quiet_event (BlacklistAdd chat user reason) = False"
| "quiet_event (EnforceActions k) = False"

fun status_write :: "event \<Rightarrow> bool" where
  "status_write (SetCaseStatus k st) = True"
| "status_write (BotCall c r) = False"
| "status_write (BlacklistAdd chat user reason) = False"
| "status_write (Answer r a) = False"
| "status_write (Sleep d) = False"
| "status_write (EnforceActions k) = False"

text \<open>The data of a vote button: \<^verbatim>\<open>jury:vote:<case_id>:<token>\<close>.\<close>

definition vote_data :: "string \<Rightarrow> string \<Rightarrow> string" where
  "vote_data case_id_str token = ''jury:vote:'' @ case_id_str @ '':'' @ token"

text \<open>
  The callback of a vote button pressed by a user, and the votes a voter has in a case
  (a selection from \<^verbatim>\<open>get_votes\<close>).
\<close>

definition vote_callback :: "string \<Rightarrow> string \<Rightarrow> int \<Rightarrow> CallbackQuery" where
  "vote_callback case_id_str token voter =
     \<lparr> data = Some (vote_data case_id_str token), from_user = voter \<rparr>"

definition votes_of :: "world \<Rightarrow> int \<Rightarrow> int \<Rightarrow> VoteRecord list" where
  "votes_of w cid voter = filter (\<lambda>v. voter_id v = voter) (get_votes w cid)"

text \<open>
  Concrete inputs, after \<^verbatim>\<open>tests/test_case_service.py\<close>: the settings and the case
  record of \<^verbatim>\<open>test_case_confirms_when_threshold_met\<close>, a store that holds that case
  alone, and a client whose calls all succeed or all fail with \<^verbatim>\<open>TelegramBadRequest\<close>.
\<close>

definition test_settings :: ChatSettings where
  "test_settings = default_settings\<lparr>min_participation_count := 3\<rparr>"

definition case_record :: "CaseStatus \<Rightarrow> int \<Rightarrow> ChatSettings \<Rightarrow> CaseRecord" where
  "case_record st closes snapshot =
     \<lparr> id' = 1, chat_id = - 123, message_id = 42, offender_id = 1001, reporter_id = 2002,
       status = st, opened_at = 0, closes_at = closes,
       poll_chat_id = None, poll_message_id = None,
       config_snapshot = snapshot, participant_target = 3 \<rparr>"

definition store_of :: "CaseRecord list \<Rightarrow> VoteRecord list \<Rightarrow> world" where
  "store_of cs vs = \<lparr> cases = cs, votes = vs, blacklist = [], trace = [] \<rparr>"

definition all_succeed :: transport where
  "all_succeed c = Success"

definition all_fail :: transport where
  "all_fail c = TelegramBadRequest"

text \<open>
  A client whose \<^verbatim>\<open>ban_chat_member\<close> raises an exception of another class than
  \<^verbatim>\<open>TelegramBadRequest\<close>, as \<^verbatim>\<open>TelegramForbiddenError\<close> when the bot is no longer a
  member of the chat; its other calls succeed.
\<close>

fun ban_forbidden :: transport where
  "ban_forbidden (BanChatMember chat user) = OtherError"
| "ban_forbidden (DeleteMessage chat msg) = Success"
| "ban_forbidden (UnbanChatMember chat user) = Success"
| "ban_forbidden (RestrictChatMember chat user until) = Success"
| "ban_forbidden (EditMessageText chat msg txt kb) = Success"

section \<open>Properties of the quorum rule\<close>

text \<open>
  Claim C5. For every total, participant target and settings, the participation
  predicate is the strategy table: under \<^verbatim>\<open>ratio_and_count\<close> both the target and the
  minimum count must be reached, under \<^verbatim>\<open>ratio_only\<close> the target alone, under
  \<^verbatim>\<open>count_only\<close> the minimum count alone.
\<close>

theorem participation_met_table:
  "participation_met tot (s\<lparr>quorum_strategy := ''ratio_and_count''\<rparr>) target
     = (tot \<ge> target \<and> tot \<ge> min_participation_count s)
   \<and> participation_met tot (s\<lparr>quorum_strategy := ''ratio_only''\<rparr>) target
     = (tot \<ge> target)
   \<and> participation_met tot (s\<lparr>quorum_strategy := ''count_only''\<rparr>) target
     = (tot \<ge> min_participation_count s)"
  by (simp add: participation_met_def)

text \<open>
  Claim C10. The participant target computed when a case is created is at least the
  minimum participation count, whatever the floating-point product gives, so with that
  target the combined strategy and the ratio-only strategy agree on every total: the
  count conjunct is redundant.
\<close>

theorem creation_target_makes_count_redundant:
  "min_participation_count s \<le> handle_report_participant_target float_mul s n
   \<and> participation_met tot (s\<lparr>quorum_strategy := ''ratio_and_count''\<rparr>)
        (handle_report_participant_target float_mul s n)
     = participation_met tot (s\<lparr>quorum_strategy := ''ratio_only''\<rparr>)
        (handle_report_participant_target float_mul s n)"
  by (auto simp add: participation_met_def handle_report_participant_target_def)

section \<open>Settings resolver: merging overrides\<close>

text \<open>
  Claim C2. The merge must give a snapshot within the declared field bounds for
  every override map. The code does not: with the class defaults and the override
  \<^verbatim>\<open>{"approval_ratio": 5.0}\<close>, \<^verbatim>\<open>merge\<close> returns a snapshot whose approval ratio is 5,
  outside the bound of at most 1, and the constructor rejects that snapshot later.
\<close>

theorem merge_keeps_out_of_range_override:
  "field_bounds default_settings
   \<and> approval_ratio (merge default_settings (Some [Approval_ratio 5])) = 5
   \<and> \<not> field_bounds (merge default_settings (Some [Approval_ratio 5]))
   \<and> ChatSettings_init (merge default_settings (Some [Approval_ratio 5])) = Inl ValidationError"
  by (simp add: merge_def model_copy_def default_settings_def field_bounds_def
      ChatSettings_init_def)

section \<open>Effects of the store and transport operations\<close>

lemma find_map_status:
  "find (\<lambda>c. id' c = cid) (map (\<lambda>c. if id' c = k then c\<lparr>status := st\<rparr> else c) xs)
   = (if cid = k then map_option (\<lambda>x. x\<lparr>status := st\<rparr>) (find (\<lambda>c. id' c = cid) xs)
      else find (\<lambda>c. id' c = cid) xs)"
  by (induction xs) auto

lemma get_case_id: "get_case w cid = Some c \<Longrightarrow> id' c = cid"
  by (auto simp add: get_case_def find_Some_iff)

lemma get_case_mem: "get_case w cid = Some c \<Longrightarrow> c \<in> set (cases w)"
  by (auto simp add: get_case_def find_Some_iff)

lemma get_case_cong: "cases w' = cases w \<Longrightarrow> get_case w' k = get_case w k"
  by (simp add: get_case_def)

lemma call_frame [simp]:
  "cases (snd (call client c w)) = cases w"
  "votes (snd (call client c w)) = votes w"
  "blacklist (snd (call client c w)) = blacklist w"
  "trace (snd (call client c w)) = trace w @ [BotCall c (client c)]"
  by (simp_all add: call_def)

lemma try_call_frame [simp]:
  "cases (snd (try_call client c w)) = cases w"
  "votes (snd (try_call client c w)) = votes w"
  "blacklist (snd (try_call client c w)) = blacklist w"
  "trace (snd (try_call client c w)) = trace w @ [BotCall c (client c)]"
  by (simp_all add: try_call_def call_def split: outcome.splits)

lemma try_call_exn:
  "fst (try_call client c w) = (if client c = OtherError then Some TransportError else None)"
  by (simp add: try_call_def call_def split: outcome.splits)

lemma sleep_frame [simp]:
  "cases (sleep d w) = cases w"
  "votes (sleep d w) = votes w"
  "blacklist (sleep d w) = blacklist w"
  "trace (sleep d w) = trace w @ [Sleep d]"
  by (simp_all add: sleep_def)

lemma answer_frame [simp]:
  "cases (answer r a w) = cases w"
  "votes (answer r a w) = votes w"
  "blacklist (answer r a w) = blacklist w"
  "trace (answer r a w) = trace w @ [Answer r a]"
  by (simp_all add: answer_def)

lemma edit_frame [simp]:
  "cases (snd (edit_message_text client chat msg txt kb w)) = cases w"
  "votes (snd (edit_message_text client chat msg txt kb w)) = votes w"
  "blacklist (snd (edit_message_text client chat msg txt kb w)) = blacklist w"
  "trace (snd (edit_message_text client chat msg txt kb w))
     = trace w @ [BotCall (EditMessageText chat msg txt kb) (client (EditMessageText chat msg txt kb))]"
  by (simp_all add: edit_message_text_def)

lemma edit_exn:
  "fst (edit_message_text client chat msg txt kb w)
   = (if client (EditMessageText chat msg txt kb) = OtherError then Some TransportError else None)"
  by (simp add: edit_message_text_def try_call_exn)

lemma set_case_status_frame [simp]:
  "votes (set_case_status k st w) = votes w"
  "blacklist (set_case_status k st w) = blacklist w"
  "trace (set_case_status k st w) = trace w @ [SetCaseStatus k st]"
  by (simp_all add: set_case_status_def)

lemma blacklist_add_frame [simp]:
  "cases (blacklist_add chat user reason now w) = cases w"
  "votes (blacklist_add chat user reason now w) = votes w"
  "trace (blacklist_add chat user reason now w) = trace w @ [BlacklistAdd chat user reason]"
  by (simp_all add: blacklist_add_def)

lemma member_action_frame [simp]:
  "cases (snd (ban_user client chat user w)) = cases w"
  "votes (snd (ban_user client chat user w)) = votes w"
  "blacklist (snd (ban_user client chat user w)) = blacklist w"
  "cases (snd (kick_user client chat user w)) = cases w"
  "votes (snd (kick_user client chat user w)) = votes w"
  "blacklist (snd (kick_user client chat user w)) = blacklist w"
  "cases (snd (mute_user client now chat user settings w)) = cases w"
  "votes (snd (mute_user client now chat user settings w)) = votes w"
  "blacklist (snd (mute_user client now chat user settings w)) = blacklist w"
  by (simp_all add: ban_user_def kick_user_def mute_user_def call_def
      split: outcome.splits sum.splits)

lemma member_action_trace:
  "\<exists>es. trace (snd (ban_user client chat user w)) = trace w @ es \<and> list_all action_event es"
  "\<exists>es. trace (snd (kick_user client chat user w)) = trace w @ es \<and> list_all action_event es"
  "\<exists>es. trace (snd (mute_user client now chat user settings w)) = trace w @ es
        \<and> list_all action_event es"
  by (simp_all add: ban_user_def kick_user_def mute_user_def call_def
      split: outcome.splits sum.splits)

text \<open>
  The result of \<^verbatim>\<open>_enforce_actions\<close> in terms of the results of its message delete and
  of its member action.
\<close>

lemma enforce_actions_steps:
  assumes d: "try_call client (DeleteMessage (chat_id c) (message_id c))
                (w\<lparr>trace := trace w @ [EnforceActions (id' c)]\<rparr>) = (e1, w1)"
    and m: "(if action_on_confirm settings = ''ban''
               then ban_user client (chat_id c) (offender_id c) w1
             else if action_on_confirm settings = ''kick''
               then kick_user client (chat_id c) (offender_id c) w1
             else if action_on_confirm settings = ''mute''
               then mute_user client now (chat_id c) (offender_id c) settings w1
             else (None, w1)) = (e2, w2)"
  shows "enforce_actions client now c settings w =
     (if e1 \<noteq> None then (e1, w1)
      else if action_on_confirm settings = ''delete_only'' then (None, w1)
      else if e2 \<noteq> None then (e2, w2)
      else if blacklist_enabled settings
        then (None, blacklist_add (chat_id c) (offender_id c)
                      (Some (''Case #'' @ str_int (id' c))) now w2)
      else (None, w2))"
  using d m by (auto simp add: enforce_actions_def Let_def split: option.splits)

lemma enforce_actions_world:
  "cases (snd (enforce_actions client now c settings w)) = cases w
   \<and> votes (snd (enforce_actions client now c settings w)) = votes w
   \<and> (\<exists>rest. trace (snd (enforce_actions client now c settings w))
                = trace w @ EnforceActions (id' c) # rest \<and> list_all action_event rest)"
proof -
  let ?w = "w\<lparr>trace := trace w @ [EnforceActions (id' c)]\<rparr>"
  let ?m = "\<lambda>w1. (if action_on_confirm settings = ''ban''
               then ban_user client (chat_id c) (offender_id c) w1
             else if action_on_confirm settings = ''kick''
               then kick_user client (chat_id c) (offender_id c) w1
             else if action_on_confirm settings = ''mute''
               then mute_user client now (chat_id c) (offender_id c) settings w1
             else (None, w1))"
  obtain e1 w1 where d: "try_call client (DeleteMessage (chat_id c) (message_id c)) ?w = (e1, w1)"
    by (cases "try_call client (DeleteMessage (chat_id c) (message_id c)) ?w")
  obtain e2 w2 where m: "?m w1 = (e2, w2)"
    by (cases "?m w1")
  have w1: "w1 = snd (try_call client (DeleteMessage (chat_id c) (message_id c)) ?w)"
    using d by simp
  have w2: "w2 = snd (?m w1)" using m by simp
  have f1: "cases w1 = cases w" "votes w1 = votes w"
    "trace w1 = trace w @ EnforceActions (id' c)
       # [BotCall (DeleteMessage (chat_id c) (message_id c))
            (client (DeleteMessage (chat_id c) (message_id c)))]"
    unfolding w1 by simp_all
  have f2: "cases w2 = cases w1" "votes w2 = votes w1"
    unfolding w2 by simp_all
  have "\<exists>es. trace (snd (?m w1)) = trace w1 @ es \<and> list_all action_event es"
    using member_action_trace(1) [of client "chat_id c" "offender_id c" w1]
      member_action_trace(2) [of client "chat_id c" "offender_id c" w1]
      member_action_trace(3) [of client now "chat_id c" "offender_id c" settings w1]
    by simp
  then obtain es where es: "trace w2 = trace w1 @ es" "list_all action_event es"
    unfolding w2 by blast
  show ?thesis
    unfolding enforce_actions_steps [OF d m]
    using f1 f2 es by simp
qed

lemma enforce_actions_frame [simp]:
  "cases (snd (enforce_actions client now c settings w)) = cases w"
  "votes (snd (enforce_actions client now c settings w)) = votes w"
  using enforce_actions_world [of client now c settings w] by simp_all

lemma enforce_actions_trace:
  "\<exists>rest. trace (snd (enforce_actions client now c settings w))
            = trace w @ EnforceActions (id' c) # rest \<and> list_all action_event rest"
  using enforce_actions_world [of client now c settings w] by simp

lemma poll_location_status [simp]: "poll_location (c\<lparr>status := st\<rparr>) = poll_location c"
  by (simp add: poll_location_def split: option.splits)

lemma confirm_case_steps:
  assumes "enforce_actions client now (c\<lparr>status := CONFIRMED\<rparr>) settings
             (set_case_status (id' c) CONFIRMED w) = (e, w2)"
  shows "confirm_case client now c settings w =
     (if e \<noteq> None then ((e, c\<lparr>status := CONFIRMED\<rparr>), w2)
      else (case poll_location c of
              Some (pc, pm) \<Rightarrow>
                ((fst (edit_message_text client pc pm (ConfirmedText (id' c)) None w2),
                  c\<lparr>status := CONFIRMED\<rparr>),
                 snd (edit_message_text client pc pm (ConfirmedText (id' c)) None w2))
            | None \<Rightarrow> ((None, c\<lparr>status := CONFIRMED\<rparr>), w2)))"
  using assms
  by (auto simp add: confirm_case_def Let_def split: option.splits prod.splits)

lemma confirm_case_world:
  "votes (snd (confirm_case client now c settings w)) = votes w
   \<and> cases (snd (confirm_case client now c settings w))
       = map (\<lambda>x. if id' x = id' c then x\<lparr>status := CONFIRMED\<rparr> else x) (cases w)
   \<and> snd (fst (confirm_case client now c settings w)) = c\<lparr>status := CONFIRMED\<rparr>
   \<and> (\<exists>rest. trace (snd (confirm_case client now c settings w))
                = trace w @ SetCaseStatus (id' c) CONFIRMED # EnforceActions (id' c) # rest
              \<and> list_all action_event rest)"
proof -
  let ?w1 = "set_case_status (id' c) CONFIRMED w"
  let ?c1 = "c\<lparr>status := CONFIRMED\<rparr>"
  obtain e w2 where en: "enforce_actions client now ?c1 settings ?w1 = (e, w2)"
    by (cases "enforce_actions client now ?c1 settings ?w1")
  have w2: "w2 = snd (enforce_actions client now ?c1 settings ?w1)" using en by simp
  have f: "votes w2 = votes w"
    "cases w2 = map (\<lambda>x. if id' x = id' c then x\<lparr>status := CONFIRMED\<rparr> else x) (cases w)"
    unfolding w2 by (simp_all add: set_case_status_def)
  obtain rest where r: "trace w2 = trace w @ SetCaseStatus (id' c) CONFIRMED
        # EnforceActions (id' c) # rest" "list_all action_event rest"
    unfolding w2 using enforce_actions_trace [of client now ?c1 settings ?w1] by auto
  show ?thesis
    unfolding confirm_case_steps [OF en]
    using f r by (simp split: option.splits)
qed

lemma confirm_case_frame [simp]:
  "votes (snd (confirm_case client now c settings w)) = votes w"
  "cases (snd (confirm_case client now c settings w))
     = map (\<lambda>x. if id' x = id' c then x\<lparr>status := CONFIRMED\<rparr> else x) (cases w)"
  "snd (fst (confirm_case client now c settings w)) = c\<lparr>status := CONFIRMED\<rparr>"
  using confirm_case_world [of client now c settings w] by simp_all

lemma confirm_case_trace:
  "\<exists>rest. trace (snd (confirm_case client now c settings w))
            = trace w @ SetCaseStatus (id' c) CONFIRMED # EnforceActions (id' c) # rest
          \<and> list_all action_event rest"
  using confirm_case_world [of client now c settings w] by simp

lemma close_case_eq:
  "close_case client c settings expired w =
     (case poll_location c of
        Some (pc, pm) \<Rightarrow>
          ((fst (edit_message_text client pc pm
                   (ClosedText (if expired then TimeoutText else InsufficientVotesText) (id' c))
                   None
                   (set_case_status (id' c) (if expired then EXPIRED else REJECTED) w)),
            c\<lparr>status := (if expired then EXPIRED else REJECTED)\<rparr>),
           snd (edit_message_text client pc pm
                   (ClosedText (if expired then TimeoutText else InsufficientVotesText) (id' c))
                   None
                   (set_case_status (id' c) (if expired then EXPIRED else REJECTED) w)))
      | None \<Rightarrow> ((None, c\<lparr>status := (if expired then EXPIRED else REJECTED)\<rparr>),
                 set_case_status (id' c) (if expired then EXPIRED else REJECTED) w))"
  by (simp add: close_case_def Let_def split: option.splits prod.splits)

lemma close_case_frame [simp]:
  "votes (snd (close_case client c settings expired w)) = votes w"
  "blacklist (snd (close_case client c settings expired w)) = blacklist w"
  "cases (snd (close_case client c settings expired w))
     = map (\<lambda>x. if id' x = id' c then x\<lparr>status := (if expired then EXPIRED else REJECTED)\<rparr> else x)
         (cases w)"
  "snd (fst (close_case client c settings expired w))
     = c\<lparr>status := (if expired then EXPIRED else REJECTED)\<rparr>"
  by (simp_all add: close_case_eq set_case_status_def split: option.splits)

lemma close_case_trace:
  "trace (snd (close_case client c settings expired w))
     = trace w @ SetCaseStatus (id' c) (if expired then EXPIRED else REJECTED) #
       (case poll_location c of
          None \<Rightarrow> []
        | Some (pc, pm) \<Rightarrow>
            [BotCall (EditMessageText pc pm
                       (ClosedText (if expired then TimeoutText else InsufficientVotesText) (id' c))
                       None)
               (client (EditMessageText pc pm
                       (ClosedText (if expired then TimeoutText else InsufficientVotesText) (id' c))
                       None))])"
  by (simp add: close_case_eq split: option.splits)

lemma maybe_resolve_cases:
  "maybe_resolve client now c settings sv nsv tot w = ((None, c), w)
   \<or> (status c = OPEN \<and> closes_at c \<le> now
       \<and> maybe_resolve client now c settings sv nsv tot w = close_case client c settings True w)
   \<or> (status c = OPEN \<and> now < closes_at c
       \<and> maybe_resolve client now c settings sv nsv tot w = confirm_case client now c settings w)"
  by (simp add: maybe_resolve_def Let_def)

section \<open>Deadline\<close>

text \<open>
  Claim C4. Deadline dominance: when an OPEN case is evaluated at a time at or after
  its deadline, the evaluation closes it with the timeout status EXPIRED, whatever the
  tally, the settings and the participant target are (so also when they satisfy the
  confirmation condition) and whatever the transport client answers. The status is
  written first, and nothing else happens but the edit of the ballot message: no
  enforcement.
\<close>

theorem deadline_dominates:
  assumes "status c = OPEN" and "now \<ge> closes_at c"
  shows "status (snd (fst (maybe_resolve client now c settings sv nsv tot w))) = EXPIRED
    \<and> get_case (snd (maybe_resolve client now c settings sv nsv tot w)) (id' c)
        = map_option (\<lambda>x. x\<lparr>status := EXPIRED\<rparr>) (get_case w (id' c))
    \<and> take 1 (new_events w (snd (maybe_resolve client now c settings sv nsv tot w)))
        = [SetCaseStatus (id' c) EXPIRED]
    \<and> list_all quiet_event
        (drop 1 (new_events w (snd (maybe_resolve client now c settings sv nsv tot w))))"
proof -
  have m: "maybe_resolve client now c settings sv nsv tot w = close_case client c settings True w"
    using assms by (simp add: maybe_resolve_def)
  have g: "get_case (snd (close_case client c settings True w)) (id' c)
        = map_option (\<lambda>x. x\<lparr>status := EXPIRED\<rparr>) (get_case w (id' c))"
    by (simp add: get_case_def find_map_status)
  show ?thesis
    by (simp add: m g new_events_def close_case_trace split: option.splits)
qed

text \<open>
  The hypotheses hold for the case of the test at its deadline, with three spam votes
  out of three, which meet participation and approval ratio.
\<close>

theorem deadline_dominates_witness:
  "status (case_record OPEN 100 test_settings) = OPEN
   \<and> closes_at (case_record OPEN 100 test_settings) \<le> 100
   \<and> participation_met 3 test_settings (participant_target (case_record OPEN 100 test_settings))
   \<and> (3 :: rat) / 3 \<ge> approval_ratio test_settings
   \<and> map_option status
        (get_case (snd (maybe_resolve all_succeed 100 (case_record OPEN 100 test_settings)
                          test_settings 3 0 3
                          (store_of [case_record OPEN 100 test_settings] [])))
           1) = Some EXPIRED"
  using deadline_dominates [of "case_record OPEN 100 test_settings" 100 all_succeed
      test_settings 3 0 3 "store_of [case_record OPEN 100 test_settings] []"]
  by (simp add: case_record_def test_settings_def default_settings_def participation_met_def
      store_of_def get_case_def)

section \<open>Enforcement\<close>

lemma str_int_1: "str_int 1 = ''1''"
  by (simp add: str_int_def str_nat.simps digit_char_def)

lemma find_upsert_blacklist:
  "find (\<lambda>x. bl_chat_id x = bl_chat_id r \<and> bl_user_id x = bl_user_id r) (upsert_blacklist r xs)
     \<noteq> None
   \<and> map_option bl_reason
       (find (\<lambda>x. bl_chat_id x = bl_chat_id r \<and> bl_user_id x = bl_user_id r)
          (upsert_blacklist r xs)) = Some (bl_reason r)"
  by (induction xs) auto

lemma blacklist_add_lookup:
  "map_option bl_reason
     (find (\<lambda>x. bl_chat_id x = chat \<and> bl_user_id x = user)
        (blacklist (blacklist_add chat user reason now w))) = Some reason"
  using find_upsert_blacklist
    [of "\<lparr>bl_chat_id = chat, bl_user_id = user, bl_reason = reason, bl_added_at = now\<rparr>"
        "blacklist w"]
  by (simp add: blacklist_add_def)

lemma blacklist_contains_find:
  "blacklist_contains w chat user
   \<longleftrightarrow> find (\<lambda>x. bl_chat_id x = chat \<and> bl_user_id x = user) (blacklist w) \<noteq> None"
  by (auto simp add: blacklist_contains_def list_ex_iff find_None_iff)

lemma mute_until_cases:
  "mute_until now settings = Inl OverflowError
   \<or> mute_until now settings = Inr (now + mute_duration_sec settings)"
  by (simp add: mute_until_def timedelta_def datetime_add_def)

text \<open>
  Which exceptions leave the functions: none when the client raises nothing but
  \<^verbatim>\<open>TelegramBadRequest\<close> and the end of a mute is a valid date; otherwise a transport
  error or the overflow.
\<close>

lemma member_action_exn:
  "\<forall>chat user. client (BanChatMember chat user) \<noteq> OtherError
   \<Longrightarrow> fst (ban_user client chat user w) = None"
  "\<forall>chat user. client (BanChatMember chat user) \<noteq> OtherError
   \<Longrightarrow> \<forall>chat user. client (UnbanChatMember chat user) \<noteq> OtherError
   \<Longrightarrow> fst (kick_user client chat user w) = None"
  "\<forall>chat user until. client (RestrictChatMember chat user until) \<noteq> OtherError
   \<Longrightarrow> mute_until now settings \<noteq> Inl OverflowError
   \<Longrightarrow> fst (mute_user client now chat user settings w) = None"
proof -
  show "fst (ban_user client chat user w) = None"
    if "\<forall>chat user. client (BanChatMember chat user) \<noteq> OtherError"
    using that by (simp add: ban_user_def try_call_exn)
  show "fst (kick_user client chat user w) = None"
    if "\<forall>chat user. client (BanChatMember chat user) \<noteq> OtherError"
      and "\<forall>chat user. client (UnbanChatMember chat user) \<noteq> OtherError"
    using that by (simp add: kick_user_def call_def try_call_exn split: outcome.splits)
  show "fst (mute_user client now chat user settings w) = None"
    if "\<forall>chat user until. client (RestrictChatMember chat user until) \<noteq> OtherError"
      and "mute_until now settings \<noteq> Inl OverflowError"
    using that mute_until_cases [of now settings]
    by (auto simp add: mute_user_def try_call_exn)
qed

lemma member_action_exn_kinds:
  "fst (ban_user client chat user w) \<in> {None, Some TransportError, Some OverflowError}"
  "fst (kick_user client chat user w) \<in> {None, Some TransportError, Some OverflowError}"
  "fst (mute_user client now chat user settings w)
     \<in> {None, Some TransportError, Some OverflowError}"
proof -
  show "fst (ban_user client chat user w) \<in> {None, Some TransportError, Some OverflowError}"
    by (simp add: ban_user_def try_call_exn)
  show "fst (kick_user client chat user w) \<in> {None, Some TransportError, Some OverflowError}"
    by (simp add: kick_user_def call_def try_call_exn split: outcome.splits)
  show "fst (mute_user client now chat user settings w)
     \<in> {None, Some TransportError, Some OverflowError}"
    using mute_until_cases [of now settings]
    by (auto simp add: mute_user_def try_call_exn split: if_splits)
qed

lemma enforce_actions_exn_kinds:
  "fst (enforce_actions client now c settings w)
     \<in> {None, Some TransportError, Some OverflowError}"
proof -
  let ?w = "w\<lparr>trace := trace w @ [EnforceActions (id' c)]\<rparr>"
  let ?m = "\<lambda>w1. (if action_on_confirm settings = ''ban''
               then ban_user client (chat_id c) (offender_id c) w1
             else if action_on_confirm settings = ''kick''
               then kick_user client (chat_id c) (offender_id c) w1
             else if action_on_confirm settings = ''mute''
               then mute_user client now (chat_id c) (offender_id c) settings w1
             else (None, w1))"
  obtain e1 w1 where d: "try_call client (DeleteMessage (chat_id c) (message_id c)) ?w = (e1, w1)"
    by (cases "try_call client (DeleteMessage (chat_id c) (message_id c)) ?w")
  obtain e2 w2 where m: "?m w1 = (e2, w2)"
    by (cases "?m w1")
  have e1: "e1 \<in> {None, Some TransportError, Some OverflowError}"
    using try_call_exn [of client "DeleteMessage (chat_id c) (message_id c)" ?w] d by simp
  have "fst (?m w1) \<in> {None, Some TransportError, Some OverflowError}"
    using member_action_exn_kinds(1) [of client "chat_id c" "offender_id c" w1]
      member_action_exn_kinds(2) [of client "chat_id c" "offender_id c" w1]
      member_action_exn_kinds(3) [of client now "chat_id c" "offender_id c" settings w1]
    by simp
  then have e2: "e2 \<in> {None, Some TransportError, Some OverflowError}"
    using m by simp
  show ?thesis
    unfolding enforce_actions_steps [OF d m] using e1 e2 by auto
qed

lemma enforce_actions_no_exn:
  assumes d: "\<forall>chat msg. client (DeleteMessage chat msg) \<noteq> OtherError"
    and bn: "\<forall>chat user. client (BanChatMember chat user) \<noteq> OtherError"
    and ub: "\<forall>chat user. client (UnbanChatMember chat user) \<noteq> OtherError"
    and rs: "\<forall>chat user until. client (RestrictChatMember chat user until) \<noteq> OtherError"
    and u: "action_on_confirm settings = ''mute'' \<longrightarrow> mute_until now settings \<noteq> Inl OverflowError"
  shows "fst (enforce_actions client now c settings w) = None
       \<and> (blacklist_enabled settings \<and> action_on_confirm settings \<noteq> ''delete_only''
            \<longrightarrow> map_option bl_reason
                  (find (\<lambda>x. bl_chat_id x = chat_id c \<and> bl_user_id x = offender_id c)
                     (blacklist (snd (enforce_actions client now c settings w))))
                = Some (Some (''Case #'' @ str_int (id' c))))"
proof -
  let ?w = "w\<lparr>trace := trace w @ [EnforceActions (id' c)]\<rparr>"
  let ?m = "\<lambda>w1. (if action_on_confirm settings = ''ban''
               then ban_user client (chat_id c) (offender_id c) w1
             else if action_on_confirm settings = ''kick''
               then kick_user client (chat_id c) (offender_id c) w1
             else if action_on_confirm settings = ''mute''
               then mute_user client now (chat_id c) (offender_id c) settings w1
             else (None, w1))"
  obtain e1 w1 where dl: "try_call client (DeleteMessage (chat_id c) (message_id c)) ?w = (e1, w1)"
    by (cases "try_call client (DeleteMessage (chat_id c) (message_id c)) ?w")
  obtain e2 w2 where m: "?m w1 = (e2, w2)"
    by (cases "?m w1")
  have e1: "e1 = None"
    using try_call_exn [of client "DeleteMessage (chat_id c) (message_id c)" ?w] dl d by simp
  have "fst (?m w1) = None"
    using member_action_exn(1) [OF bn, of "chat_id c" "offender_id c" w1]
      member_action_exn(2) [OF bn ub, of "chat_id c" "offender_id c" w1]
      member_action_exn(3) [OF rs, of now settings "chat_id c" "offender_id c" w1] u
    by simp
  then have e2: "e2 = None" using m by simp
  show ?thesis
    unfolding enforce_actions_steps [OF dl m] using e1 e2
    by (simp add: blacklist_add_lookup)
qed

lemma confirm_case_blacklist:
  assumes d: "\<forall>chat msg. client (DeleteMessage chat msg) \<noteq> OtherError"
    and bn: "\<forall>chat user. client (BanChatMember chat user) \<noteq> OtherError"
    and ub: "\<forall>chat user. client (UnbanChatMember chat user) \<noteq> OtherError"
    and rs: "\<forall>chat user until. client (RestrictChatMember chat user until) \<noteq> OtherError"
    and u: "action_on_confirm settings = ''mute'' \<longrightarrow> mute_until now settings \<noteq> Inl OverflowError"
    and b: "blacklist_enabled settings" and a: "action_on_confirm settings \<noteq> ''delete_only''"
  shows "map_option bl_reason
           (find (\<lambda>x. bl_chat_id x = chat_id c \<and> bl_user_id x = offender_id c)
              (blacklist (snd (confirm_case client now c settings w))))
         = Some (Some (''Case #'' @ str_int (id' c)))"
proof -
  let ?w1 = "set_case_status (id' c) CONFIRMED w"
  let ?c1 = "c\<lparr>status := CONFIRMED\<rparr>"
  obtain e w2 where en: "enforce_actions client now ?c1 settings ?w1 = (e, w2)"
    by (cases "enforce_actions client now ?c1 settings ?w1")
  have r: "e = None"
    "map_option bl_reason
       (find (\<lambda>x. bl_chat_id x = chat_id c \<and> bl_user_id x = offender_id c) (blacklist w2))
     = Some (Some (''Case #'' @ str_int (id' c)))"
    using enforce_actions_no_exn [OF d bn ub rs u, of ?c1 ?w1] en a b by simp_all
  show ?thesis
    unfolding confirm_case_steps [OF en]
    using r by (simp split: option.splits)
qed

text \<open>
  Claim C1, as amended. For every confirmed case whose settings enable the blacklist
  and whose configured action is not \<^verbatim>\<open>delete_only\<close>, enforcement records the offender
  in the blacklist of the chat with the reason \<^verbatim>\<open>Case #<id>\<close>, also when the message
  delete and the ban, kick or mute fail with \<^verbatim>\<open>TelegramBadRequest\<close>, and no exception
  leaves \<^verbatim>\<open>_enforce_actions\<close>. This is stated for a client whose enforcement calls
  (delete, ban, unban, restrict) raise no exception of another class, and, when the
  action is \<^verbatim>\<open>mute\<close>, for a mute whose end is a valid date. Nothing is assumed of the
  edit of the ballot, which comes after the blacklist write.
\<close>

theorem blacklist_recorded_unless_delete_only:
  assumes "blacklist_enabled settings" and "action_on_confirm settings \<noteq> ''delete_only''"
    and "\<forall>chat msg. client (DeleteMessage chat msg) \<noteq> OtherError"
    and "\<forall>chat user. client (BanChatMember chat user) \<noteq> OtherError"
    and "\<forall>chat user. client (UnbanChatMember chat user) \<noteq> OtherError"
    and "\<forall>chat user until. client (RestrictChatMember chat user until) \<noteq> OtherError"
    and "action_on_confirm settings = ''mute'' \<longrightarrow> mute_until now settings \<noteq> Inl OverflowError"
  shows "fst (enforce_actions client now c settings w) = None
    \<and> blacklist_contains (snd (enforce_actions client now c settings w))
         (chat_id c) (offender_id c)
    \<and> map_option bl_reason
         (find (\<lambda>x. bl_chat_id x = chat_id c \<and> bl_user_id x = offender_id c)
            (blacklist (snd (enforce_actions client now c settings w))))
       = Some (Some (''Case #'' @ str_int (id' c)))
    \<and> blacklist_contains (snd (confirm_case client now c settings w))
         (chat_id c) (offender_id c)
    \<and> map_option bl_reason
         (find (\<lambda>x. bl_chat_id x = chat_id c \<and> bl_user_id x = offender_id c)
            (blacklist (snd (confirm_case client now c settings w))))
       = Some (Some (''Case #'' @ str_int (id' c)))"
proof -
  have a: "fst (enforce_actions client now c settings w) = None"
    "map_option bl_reason
         (find (\<lambda>x. bl_chat_id x = chat_id c \<and> bl_user_id x = offender_id c)
            (blacklist (snd (enforce_actions client now c settings w))))
       = Some (Some (''Case #'' @ str_int (id' c)))"
    using enforce_actions_no_exn [OF assms(3-7), of c w] assms(1,2) by simp_all
  note b = confirm_case_blacklist [OF assms(3-7) assms(1,2), of c w]
  from a(2) have a': "blacklist_contains (snd (enforce_actions client now c settings w))
      (chat_id c) (offender_id c)"
    by (auto simp add: blacklist_contains_find)
  from b have b': "blacklist_contains (snd (confirm_case client now c settings w))
      (chat_id c) (offender_id c)"
    by (auto simp add: blacklist_contains_find)
  from a a' b b' show ?thesis by simp
qed

text \<open>
  The hypotheses hold for the settings of the test (action \<^verbatim>\<open>ban\<close>) with a client
  whose every call fails with \<^verbatim>\<open>TelegramBadRequest\<close>: the entry is written all the same.
\<close>

theorem blacklist_recorded_unless_delete_only_witness:
  "blacklist_enabled test_settings \<and> action_on_confirm test_settings \<noteq> ''delete_only''
   \<and> action_on_confirm test_settings \<noteq> ''mute''
   \<and> all_fail (DeleteMessage (- 123) 42) = TelegramBadRequest
   \<and> all_fail (BanChatMember (- 123) 1001) = TelegramBadRequest
   \<and> fst (enforce_actions all_fail 50 (case_record CONFIRMED 100 test_settings) test_settings
            (store_of [case_record CONFIRMED 100 test_settings] [])) = None
   \<and> blacklist_contains
        (snd (confirm_case all_fail 50 (case_record OPEN 100 test_settings) test_settings
               (store_of [case_record OPEN 100 test_settings] []))) (- 123) 1001
   \<and> map bl_reason
        (blacklist (snd (confirm_case all_fail 50 (case_record OPEN 100 test_settings) test_settings
               (store_of [case_record OPEN 100 test_settings] []))))
      = [Some ''Case #1'']"
  using blacklist_recorded_unless_delete_only [of test_settings all_fail 50
      "case_record OPEN 100 test_settings" "store_of [case_record OPEN 100 test_settings] []"]
    blacklist_recorded_unless_delete_only [of test_settings all_fail 50
      "case_record CONFIRMED 100 test_settings"
      "store_of [case_record CONFIRMED 100 test_settings] []"]
  by (simp add: test_settings_def default_settings_def all_fail_def case_record_def
      store_of_def confirm_case_def enforce_actions_def Let_def poll_location_def
      ban_user_def try_call_def call_def set_case_status_def blacklist_add_def str_int_1)

text \<open>
  The claim as stated fails at three inputs. With the action \<^verbatim>\<open>delete_only\<close> and a
  client whose calls all succeed, \<^verbatim>\<open>_enforce_actions\<close> returns after the message
  delete, before the blacklist step. With the action \<^verbatim>\<open>ban\<close> and a client whose ban
  raises an exception of another class than \<^verbatim>\<open>TelegramBadRequest\<close>, the exception leaves
  \<^verbatim>\<open>_ban_user\<close> and \<^verbatim>\<open>_enforce_actions\<close> before the blacklist step. With the action
  \<^verbatim>\<open>mute\<close> and a mute duration of \<^verbatim>\<open>10 ** 12\<close> seconds, which the settings accept, the
  end of the mute is past the year 9999 and the \<^verbatim>\<open>OverflowError\<close> of the date sum leaves
  \<^verbatim>\<open>_mute_user\<close> before any call, and \<^verbatim>\<open>_enforce_actions\<close> before the blacklist step.
\<close>

theorem enforcement_skips_blacklist:
  "(blacklist_enabled (test_settings\<lparr>action_on_confirm := ''delete_only''\<rparr>)
    \<and> fst (fst (confirm_case all_succeed 50
               (case_record OPEN 100 (test_settings\<lparr>action_on_confirm := ''delete_only''\<rparr>))
               (test_settings\<lparr>action_on_confirm := ''delete_only''\<rparr>)
               (store_of [case_record OPEN 100
                            (test_settings\<lparr>action_on_confirm := ''delete_only''\<rparr>)] [])))
        = None
    \<and> \<not> blacklist_contains
        (snd (confirm_case all_succeed 50
               (case_record OPEN 100 (test_settings\<lparr>action_on_confirm := ''delete_only''\<rparr>))
               (test_settings\<lparr>action_on_confirm := ''delete_only''\<rparr>)
               (store_of [case_record OPEN 100
                            (test_settings\<lparr>action_on_confirm := ''delete_only''\<rparr>)] [])))
        (- 123) 1001)
   \<and> (blacklist_enabled test_settings \<and> action_on_confirm test_settings = ''ban''
    \<and> fst (fst (confirm_case ban_forbidden 50 (case_record OPEN 100 test_settings)
               test_settings (store_of [case_record OPEN 100 test_settings] [])))
        = Some TransportError
    \<and> \<not> blacklist_contains
        (snd (confirm_case ban_forbidden 50 (case_record OPEN 100 test_settings)
               test_settings (store_of [case_record OPEN 100 test_settings] [])))
        (- 123) 1001)
   \<and> (blacklist_enabled
         (test_settings\<lparr>action_on_confirm := ''mute'', mute_duration_sec := 1000000000000\<rparr>)
    \<and> ChatSettings_init
         (test_settings\<lparr>action_on_confirm := ''mute'', mute_duration_sec := 1000000000000\<rparr>)
        = Inr (test_settings\<lparr>action_on_confirm := ''mute'', mute_duration_sec := 1000000000000\<rparr>)
    \<and> fst (fst (confirm_case all_succeed 50
               (case_record OPEN 100
                  (test_settings\<lparr>action_on_confirm := ''mute'',
                                  mute_duration_sec := 1000000000000\<rparr>))
               (test_settings\<lparr>action_on_confirm := ''mute'', mute_duration_sec := 1000000000000\<rparr>)
               (store_of [case_record OPEN 100
                            (test_settings\<lparr>action_on_confirm := ''mute'',
                                            mute_duration_sec := 1000000000000\<rparr>)] [])))
        = Some OverflowError
    \<and> \<not> blacklist_contains
        (snd (confirm_case all_succeed 50
               (case_record OPEN 100
                  (test_settings\<lparr>action_on_confirm := ''mute'',
                                  mute_duration_sec := 1000000000000\<rparr>))
               (test_settings\<lparr>action_on_confirm := ''mute'', mute_duration_sec := 1000000000000\<rparr>)
               (store_of [case_record OPEN 100
                            (test_settings\<lparr>action_on_confirm := ''mute'',
                                            mute_duration_sec := 1000000000000\<rparr>)] [])))
        (- 123) 1001)"
  by (simp add: test_settings_def default_settings_def case_record_def store_of_def
      confirm_case_def enforce_actions_def Let_def poll_location_def ban_user_def
      mute_user_def mute_until_def timedelta_def datetime_add_def try_call_def call_def
      set_case_status_def blacklist_contains_def all_succeed_def ChatSettings_init_def
      field_bounds_def literals_ok_def)

section \<open>Exceptions of an evaluation\<close>

lemma enforce_actions_quiet_client:
  assumes t: "\<forall>call. client call \<noteq> OtherError"
    and u: "action_on_confirm settings = ''mute'' \<longrightarrow> mute_until now settings \<noteq> Inl OverflowError"
  shows "fst (enforce_actions client now c settings w) = None"
  using enforce_actions_no_exn [of client settings now c w] t u by simp

lemma confirm_case_exn:
  "fst (fst (confirm_case client now c settings w))
     \<in> {None, Some TransportError, Some OverflowError}"
  "(\<forall>call. client call \<noteq> OtherError)
   \<Longrightarrow> (action_on_confirm settings = ''mute'' \<longrightarrow> mute_until now settings \<noteq> Inl OverflowError)
   \<Longrightarrow> fst (fst (confirm_case client now c settings w)) = None"
proof -
  let ?w1 = "set_case_status (id' c) CONFIRMED w"
  let ?c1 = "c\<lparr>status := CONFIRMED\<rparr>"
  obtain e w2 where en: "enforce_actions client now ?c1 settings ?w1 = (e, w2)"
    by (cases "enforce_actions client now ?c1 settings ?w1")
  have k: "e \<in> {None, Some TransportError, Some OverflowError}"
    using enforce_actions_exn_kinds [of client now ?c1 settings ?w1] en by simp
  show "fst (fst (confirm_case client now c settings w))
     \<in> {None, Some TransportError, Some OverflowError}"
    unfolding confirm_case_steps [OF en]
    using k by (auto simp add: edit_exn split: option.splits)
  show "fst (fst (confirm_case client now c settings w)) = None"
    if t: "\<forall>call. client call \<noteq> OtherError"
      and u: "action_on_confirm settings = ''mute'' \<longrightarrow> mute_until now settings \<noteq> Inl OverflowError"
  proof -
    have "e = None"
      using enforce_actions_quiet_client [OF t u, of ?c1 ?w1] en by simp
    then show ?thesis
      unfolding confirm_case_steps [OF en]
      using t by (simp add: edit_exn split: option.splits)
  qed
qed

lemma close_case_exn:
  "fst (fst (close_case client c settings expired w))
     \<in> {None, Some TransportError, Some OverflowError}"
  "(\<forall>call. client call \<noteq> OtherError)
   \<Longrightarrow> fst (fst (close_case client c settings expired w)) = None"
  by (simp_all add: close_case_eq edit_exn split: option.splits)

lemma maybe_resolve_exn:
  "fst (fst (maybe_resolve client now c settings sv nsv tot w))
     \<in> {None, Some TransportError, Some OverflowError}"
  "(\<forall>call. client call \<noteq> OtherError)
   \<Longrightarrow> (action_on_confirm settings = ''mute'' \<longrightarrow> mute_until now settings \<noteq> Inl OverflowError)
   \<Longrightarrow> fst (fst (maybe_resolve client now c settings sv nsv tot w)) = None"
proof -
  consider (same) "maybe_resolve client now c settings sv nsv tot w = ((None, c), w)"
    | (close) "maybe_resolve client now c settings sv nsv tot w = close_case client c settings True w"
    | (confirm) "maybe_resolve client now c settings sv nsv tot w = confirm_case client now c settings w"
    using maybe_resolve_cases [of client now c settings sv nsv tot w] by blast
  then show "fst (fst (maybe_resolve client now c settings sv nsv tot w))
     \<in> {None, Some TransportError, Some OverflowError}"
  proof cases
    case same
    then show ?thesis by simp
  next
    case close
    then show ?thesis using close_case_exn(1) [of client c settings True w] by simp
  next
    case confirm
    then show ?thesis using confirm_case_exn(1) [of client now c settings w] by simp
  qed
  show "fst (fst (maybe_resolve client now c settings sv nsv tot w)) = None"
    if t: "\<forall>call. client call \<noteq> OtherError"
      and u: "action_on_confirm settings = ''mute'' \<longrightarrow> mute_until now settings \<noteq> Inl OverflowError"
  proof -
    consider (same) "maybe_resolve client now c settings sv nsv tot w = ((None, c), w)"
      | (close) "maybe_resolve client now c settings sv nsv tot w = close_case client c settings True w"
      | (confirm) "maybe_resolve client now c settings sv nsv tot w = confirm_case client now c settings w"
      using maybe_resolve_cases [of client now c settings sv nsv tot w] by blast
    then show ?thesis
    proof cases
      case same
      then show ?thesis by simp
    next
      case close
      then show ?thesis using close_case_exn(2) [OF t, of c settings True w] by simp
    next
      case confirm
      then show ?thesis using confirm_case_exn(2) [OF t u, of c w] by simp
    qed
  qed
qed

lemma refresh_poll_steps:
  assumes "maybe_resolve client now c settings
      (int (length (filter (\<lambda>v. decision v = SPAM) (get_votes w (id' c)))))
      (int (length (filter (\<lambda>v. decision v = NOT_SPAM) (get_votes w (id' c)))))
      (int (length (get_votes w (id' c)))) w = ((e, c1), w1)"
  shows "refresh_poll client now c settings w =
     (if e \<noteq> None then (e, w1)
      else if status c1 \<noteq> OPEN then (None, w1)
      else (case poll_location c1 of
              Some (pc, pm) \<Rightarrow>
                edit_message_text client pc pm
                  (format_poll_text c1 settings
                     (int (length (filter (\<lambda>v. decision v = SPAM) (get_votes w (id' c)))))
                     (int (length (filter (\<lambda>v. decision v = NOT_SPAM) (get_votes w (id' c)))))
                     (int (length (get_votes w (id' c)))))
                  (Some (build_keyboard (id' c1) (allow_vote_retract settings))) w1
            | None \<Rightarrow> (None, w1)))"
  using assms by (auto simp add: refresh_poll_def Let_def split: option.splits)

lemma refresh_poll_exn:
  "fst (refresh_poll client now c settings w) \<in> {None, Some TransportError, Some OverflowError}"
  "(\<forall>call. client call \<noteq> OtherError)
   \<Longrightarrow> (action_on_confirm settings = ''mute'' \<longrightarrow> mute_until now settings \<noteq> Inl OverflowError)
   \<Longrightarrow> fst (refresh_poll client now c settings w) = None"
proof -
  let ?sv = "int (length (filter (\<lambda>v. decision v = SPAM) (get_votes w (id' c))))"
  let ?nsv = "int (length (filter (\<lambda>v. decision v = NOT_SPAM) (get_votes w (id' c))))"
  let ?tot = "int (length (get_votes w (id' c)))"
  obtain e c1 w1 where m: "maybe_resolve client now c settings ?sv ?nsv ?tot w = ((e, c1), w1)"
    by (cases "maybe_resolve client now c settings ?sv ?nsv ?tot w") auto
  have k: "e \<in> {None, Some TransportError, Some OverflowError}"
    using maybe_resolve_exn(1) [of client now c settings ?sv ?nsv ?tot w] m by simp
  show "fst (refresh_poll client now c settings w)
      \<in> {None, Some TransportError, Some OverflowError}"
    unfolding refresh_poll_steps [OF m]
    using k by (auto simp add: edit_exn split: option.splits)
  show "fst (refresh_poll client now c settings w) = None"
    if t: "\<forall>call. client call \<noteq> OtherError"
      and u: "action_on_confirm settings = ''mute'' \<longrightarrow> mute_until now settings \<noteq> Inl OverflowError"
  proof -
    have "e = None"
      using maybe_resolve_exn(2) [OF t u, of c ?sv ?nsv ?tot w] m by simp
    then show ?thesis
      unfolding refresh_poll_steps [OF m]
      using t by (simp add: edit_exn split: option.splits)
  qed
qed

section \<open>Vote callbacks\<close>

lemma split_nonempty: "split sep s \<noteq> []"
  by (induction s) (auto split: list.splits)

lemma split_no_sep: "sep \<notin> set a \<Longrightarrow> split sep a = [a]"
  by (induction a) auto

lemma split_append: "sep \<notin> set a \<Longrightarrow> split sep (a @ sep # b) = a # split sep b"
  by (induction a) auto

lemma split_vote_data:
  assumes "CHR '':'' \<notin> set cs" and "CHR '':'' \<notin> set tok"
  shows "split (CHR '':'') (vote_data cs tok) = [''jury'', ''vote'', cs, tok]"
proof -
  have "split (CHR '':'') (cs @ CHR '':'' # tok) = [cs, tok]"
    using assms by (simp add: split_append split_no_sep)
  then show ?thesis
    by (simp add: vote_data_def)
qed

lemma upsert_vote_keys:
  "map (\<lambda>v. (case_id v, voter_id v)) (upsert_vote r xs)
   = (if (case_id r, voter_id r) \<in> set (map (\<lambda>v. (case_id v, voter_id v)) xs)
      then map (\<lambda>v. (case_id v, voter_id v)) xs
      else map (\<lambda>v. (case_id v, voter_id v)) xs @ [(case_id r, voter_id r)])"
  by (induction xs) auto

lemma upsert_vote_distinct:
  "distinct (map (\<lambda>v. (case_id v, voter_id v)) xs)
   \<Longrightarrow> distinct (map (\<lambda>v. (case_id v, voter_id v)) (upsert_vote r xs))"
  by (simp add: upsert_vote_keys)

lemma upsert_vote_same:
  fixes r :: VoteRecord
  assumes "distinct (map (\<lambda>v. (case_id v, voter_id v)) xs)"
  shows "filter (\<lambda>v. case_id v = case_id r \<and> voter_id v = voter_id r) (upsert_vote r xs) = [r]"
  using assms
proof (induction xs)
  case Nil
  then show ?case by simp
next
  case (Cons x xs)
  show ?case
  proof (cases "case_id x = case_id r \<and> voter_id x = voter_id r")
    case True
    then have "filter (\<lambda>v. case_id v = case_id r \<and> voter_id v = voter_id r) xs = []"
      using Cons.prems by (auto simp add: filter_empty_conv image_iff)
    then show ?thesis using True by simp
  next
    case False
    then show ?thesis using Cons by auto
  qed
qed

lemma upsert_vote_other:
  "filter (\<lambda>v. \<not> (case_id v = case_id r \<and> voter_id v = voter_id r)) (upsert_vote r xs)
   = filter (\<lambda>v. \<not> (case_id v = case_id r \<and> voter_id v = voter_id r)) xs"
  by (induction xs) auto

lemma maybe_resolve_votes [simp]:
  "votes (snd (maybe_resolve client now c settings sv nsv tot w)) = votes w"
  using maybe_resolve_cases [of client now c settings sv nsv tot w] by auto

lemma maybe_resolve_trace_prefix:
  "\<exists>es. trace (snd (maybe_resolve client now c settings sv nsv tot w)) = trace w @ es"
proof -
  consider (same) "maybe_resolve client now c settings sv nsv tot w = ((None, c), w)"
    | (close) "maybe_resolve client now c settings sv nsv tot w = close_case client c settings True w"
    | (confirm) "maybe_resolve client now c settings sv nsv tot w = confirm_case client now c settings w"
    using maybe_resolve_cases [of client now c settings sv nsv tot w] by blast
  then show ?thesis
  proof cases
    case same
    then show ?thesis by simp
  next
    case close
    then show ?thesis by (simp add: close_case_trace)
  next
    case confirm
    obtain rest where "trace (snd (confirm_case client now c settings w))
            = trace w @ SetCaseStatus (id' c) CONFIRMED # EnforceActions (id' c) # rest"
      using confirm_case_trace [of client now c settings w] by blast
    then show ?thesis using confirm by simp
  qed
qed

lemma refresh_poll_votes_trace:
  "votes (snd (refresh_poll client now c settings w)) = votes w
   \<and> (\<exists>es. trace (snd (refresh_poll client now c settings w)) = trace w @ es)"
proof -
  let ?sv = "int (length (filter (\<lambda>v. decision v = SPAM) (get_votes w (id' c))))"
  let ?nsv = "int (length (filter (\<lambda>v. decision v = NOT_SPAM) (get_votes w (id' c))))"
  let ?tot = "int (length (get_votes w (id' c)))"
  obtain e c1 w1 where m: "maybe_resolve client now c settings ?sv ?nsv ?tot w = ((e, c1), w1)"
    by (cases "maybe_resolve client now c settings ?sv ?nsv ?tot w") auto
  have w1: "w1 = snd (maybe_resolve client now c settings ?sv ?nsv ?tot w)" using m by simp
  have v: "votes w1 = votes w" unfolding w1 by simp
  obtain es where es: "trace w1 = trace w @ es"
    unfolding w1 using maybe_resolve_trace_prefix [of client now c settings ?sv ?nsv ?tot w]
    by blast
  show ?thesis
    unfolding refresh_poll_steps [OF m]
    using v es by (simp split: option.splits)
qed

lemma refresh_poll_votes [simp]:
  "votes (snd (refresh_poll client now c settings w)) = votes w"
  using refresh_poll_votes_trace [of client now c settings w] by simp

lemma refresh_poll_trace_prefix:
  "\<exists>es. trace (snd (refresh_poll client now c settings w)) = trace w @ es"
  using refresh_poll_votes_trace [of client now c settings w] by simp

lemma handle_vote_callback_open:
  assumes d: "data callback = Some (vote_data cs tok)"
    and cs: "CHR '':'' \<notin> set cs" and tok: "CHR '':'' \<notin> set tok"
    and p: "py_int cs = Some cid"
    and g: "get_case w cid = Some c" and st: "status c = OPEN"
    and v: "ChatSettings_init (config_snapshot c) = Inr settings"
  shows "handle_vote_callback client now callback w =
     (if tok = ''retract'' then
        if \<not> allow_vote_retract settings then (None, answer RetractDisabled True w)
        else refresh_poll client now c settings
               (answer VoteRecorded False (retract_vote cid (from_user callback) w))
      else refresh_poll client now c settings
             (answer VoteRecorded False
               (record_vote cid (from_user callback)
                  (if tok = ''spam'' then SPAM else NOT_SPAM) now w)))"
proof -
  have i: "id' c = cid" using g by (rule get_case_id)
  show ?thesis
    by (simp add: handle_vote_callback_def d split_vote_data [OF cs tok] p g st v i Let_def)
qed

lemma votes_of_record_vote:
  assumes "vote_keys_distinct w" and "votes w' = votes (record_vote cid voter d now w)"
  shows "votes_of w' cid voter
         = [\<lparr>case_id = cid, voter_id = voter, decision = d, updated_at = now\<rparr>]
       \<and> vote_keys_distinct w'
       \<and> filter (\<lambda>v. \<not> (case_id v = cid \<and> voter_id v = voter)) (votes w')
         = filter (\<lambda>v. \<not> (case_id v = cid \<and> voter_id v = voter)) (votes w)"
proof -
  let ?r = "\<lparr>case_id = cid, voter_id = voter, decision = d, updated_at = now\<rparr>"
  have d: "distinct (map (\<lambda>v. (case_id v, voter_id v)) (votes w))"
    using assms(1) by (simp add: vote_keys_distinct_def)
  have v: "votes w' = upsert_vote ?r (votes w)"
    using assms(2) by (simp add: record_vote_def)
  have a: "filter (\<lambda>v. case_id v = cid \<and> voter_id v = voter) (votes w') = [?r]"
    using upsert_vote_same [OF d, of ?r] by (simp add: v)
  have b: "vote_keys_distinct w'"
    using upsert_vote_distinct [OF d, of ?r] by (simp add: v vote_keys_distinct_def)
  have c: "filter (\<lambda>v. \<not> (case_id v = cid \<and> voter_id v = voter)) (votes w')
         = filter (\<lambda>v. \<not> (case_id v = cid \<and> voter_id v = voter)) (votes w)"
    using upsert_vote_other [of ?r "votes w"] by (simp add: v)
  have a': "votes_of w' cid voter = [?r]"
    using a by (simp add: votes_of_def get_votes_def)
  from a' b c show ?thesis by simp
qed

lemma votes_of_retract_vote:
  assumes "vote_keys_distinct w" and "votes w' = votes (retract_vote cid voter w)"
  shows "votes_of w' cid voter = []
       \<and> vote_keys_distinct w'
       \<and> filter (\<lambda>v. \<not> (case_id v = cid \<and> voter_id v = voter)) (votes w')
         = filter (\<lambda>v. \<not> (case_id v = cid \<and> voter_id v = voter)) (votes w)"
proof -
  have v: "votes w' = filter (\<lambda>v. \<not> (case_id v = cid \<and> voter_id v = voter)) (votes w)"
    using assms(2) by (simp add: retract_vote_def)
  have a: "votes_of w' cid voter = []"
    by (simp add: votes_of_def get_votes_def v filter_empty_conv)
  have b: "vote_keys_distinct w'"
    using assms(1) by (simp add: vote_keys_distinct_def v distinct_map_filter)
  have c: "filter (\<lambda>v. \<not> (case_id v = cid \<and> voter_id v = voter)) (votes w')
         = filter (\<lambda>v. \<not> (case_id v = cid \<and> voter_id v = voter)) (votes w)"
    by (simp add: v)
  from a b c show ?thesis by simp
qed

lemma py_int_1: "py_int ''1'' = Some 1"
  by (simp add: py_int_def strip_def is_space_def parse_nat_def is_digit_def digit_value_def)

lemma vote_write_frame [simp]:
  "cases (record_vote cid voter d now w) = cases w"
  "blacklist (record_vote cid voter d now w) = blacklist w"
  "trace (record_vote cid voter d now w) = trace w"
  "cases (retract_vote cid voter w) = cases w"
  "blacklist (retract_vote cid voter w) = blacklist w"
  "trace (retract_vote cid voter w) = trace w"
  by (simp_all add: record_vote_def retract_vote_def)

lemma cast_votes:
  assumes cs: "CHR '':'' \<notin> set cs"
    and p: "py_int cs = Some cid"
    and g: "get_case w cid = Some c" and st: "status c = OPEN"
    and v: "ChatSettings_init (config_snapshot c) = Inr settings"
    and tok: "CHR '':'' \<notin> set tok" and nr: "tok \<noteq> ''retract''"
  shows "handle_vote_callback client now (vote_callback cs tok voter) w
      = refresh_poll client now c settings
          (answer VoteRecorded False
             (record_vote cid voter (if tok = ''spam'' then SPAM else NOT_SPAM) now w))
    \<and> votes (snd (handle_vote_callback client now (vote_callback cs tok voter) w))
      = votes (record_vote cid voter (if tok = ''spam'' then SPAM else NOT_SPAM) now w)
    \<and> take 1 (new_events w (snd (handle_vote_callback client now (vote_callback cs tok voter) w)))
      = [Answer VoteRecorded False]"
proof -
  let ?w1 = "answer VoteRecorded False
                (record_vote cid voter (if tok = ''spam'' then SPAM else NOT_SPAM) now w)"
  have h: "handle_vote_callback client now (vote_callback cs tok voter) w
      = refresh_poll client now c settings ?w1"
    using handle_vote_callback_open [of "vote_callback cs tok voter" cs tok cid w c settings client now]
      cs p g st v tok nr
    by (simp add: vote_callback_def)
  obtain es where es: "trace (snd (refresh_poll client now c settings ?w1)) = trace ?w1 @ es"
    using refresh_poll_trace_prefix by blast
  have t: "trace ?w1 = trace w @ [Answer VoteRecorded False]"
    by simp
  show ?thesis
    by (simp add: h es t new_events_def)
qed

lemma retract_votes:
  assumes cs: "CHR '':'' \<notin> set cs"
    and p: "py_int cs = Some cid"
    and g: "get_case w cid = Some c" and st: "status c = OPEN"
    and v: "ChatSettings_init (config_snapshot c) = Inr settings"
  shows "handle_vote_callback client now (vote_callback cs ''retract'' voter) w
     = (if allow_vote_retract settings
        then refresh_poll client now c settings
               (answer VoteRecorded False (retract_vote cid voter w))
        else (None, answer RetractDisabled True w))"
  using handle_vote_callback_open [of "vote_callback cs ''retract'' voter" cs "''retract''" cid w c
      settings client now] cs p g st v
  by (simp add: vote_callback_def)

text \<open>
  Claim C9. For a vote callback \<^verbatim>\<open>jury:vote:<case_id>:<token>\<close> against an OPEN case,
  a token other than \<^verbatim>\<open>spam\<close> and \<^verbatim>\<open>retract\<close> is not rejected: the callback is answered
  with the vote-recorded text, and the voter then has exactly one vote in the case,
  with decision \<^verbatim>\<open>NOT_SPAM\<close>. The callback raises neither \<^verbatim>\<open>ValueError\<close> nor
  \<^verbatim>\<open>ValidationError\<close>; it raises nothing at all when the transport client raises nothing
  but \<^verbatim>\<open>TelegramBadRequest\<close> and the end of a mute is a valid date, the two ways the
  evaluation that follows the recording of the vote can raise.
\<close>

theorem unknown_token_counts_as_not_spam:
  assumes "CHR '':'' \<notin> set cs" and "py_int cs = Some cid"
    and "get_case w cid = Some c" and "status c = OPEN"
    and "ChatSettings_init (config_snapshot c) = Inr settings"
    and "vote_keys_distinct w"
    and "CHR '':'' \<notin> set tok" and "tok \<noteq> ''spam''" and "tok \<noteq> ''retract''"
  shows "take 1 (new_events w (snd (handle_vote_callback client now (vote_callback cs tok voter) w)))
      = [Answer VoteRecorded False]
    \<and> votes_of (snd (handle_vote_callback client now (vote_callback cs tok voter) w)) cid voter
      = [\<lparr>case_id = cid, voter_id = voter, decision = NOT_SPAM, updated_at = now\<rparr>]
    \<and> fst (handle_vote_callback client now (vote_callback cs tok voter) w) \<noteq> Some ValueError
    \<and> fst (handle_vote_callback client now (vote_callback cs tok voter) w)
        \<noteq> Some ValidationError
    \<and> ((\<forall>call. client call \<noteq> OtherError)
        \<and> (action_on_confirm settings = ''mute''
             \<longrightarrow> mute_until now settings \<noteq> Inl OverflowError)
        \<longrightarrow> fst (handle_vote_callback client now (vote_callback cs tok voter) w) = None)"
proof -
  let ?w1 = "answer VoteRecorded False (record_vote cid voter NOT_SPAM now w)"
  note cv = cast_votes [OF assms(1-5) assms(7) assms(9), of client now voter]
  have tk: "(if tok = ''spam'' then SPAM else NOT_SPAM) = NOT_SPAM"
    using assms(8) by simp
  have h: "handle_vote_callback client now (vote_callback cs tok voter) w
      = refresh_poll client now c settings ?w1"
    using cv unfolding tk by (rule conjunct1)
  have vs: "votes (snd (handle_vote_callback client now (vote_callback cs tok voter) w))
      = votes (record_vote cid voter NOT_SPAM now w)"
    using cv unfolding tk by blast
  have tr: "take 1 (new_events w (snd (handle_vote_callback client now (vote_callback cs tok voter) w)))
      = [Answer VoteRecorded False]"
    using cv by blast
  have v: "votes_of (snd (handle_vote_callback client now (vote_callback cs tok voter) w)) cid voter
      = [\<lparr>case_id = cid, voter_id = voter, decision = NOT_SPAM, updated_at = now\<rparr>]"
    using votes_of_record_vote [OF assms(6) vs] by blast
  have k: "fst (handle_vote_callback client now (vote_callback cs tok voter) w)
      \<in> {None, Some TransportError, Some OverflowError}"
    unfolding h by (rule refresh_poll_exn(1))
  have n: "fst (handle_vote_callback client now (vote_callback cs tok voter) w) = None"
    if "\<forall>call. client call \<noteq> OtherError"
      and "action_on_confirm settings = ''mute'' \<longrightarrow> mute_until now settings \<noteq> Inl OverflowError"
    unfolding h using that by (rule refresh_poll_exn(2))
  have k1: "fst (handle_vote_callback client now (vote_callback cs tok voter) w) \<noteq> Some ValueError"
    and k2: "fst (handle_vote_callback client now (vote_callback cs tok voter) w)
        \<noteq> Some ValidationError"
    using k by auto
  from tr v k1 k2 n show ?thesis by blast
qed

text \<open>The hypotheses hold for the token \<^verbatim>\<open>garbage\<close> on the open case of the test.\<close>

theorem unknown_token_counts_as_not_spam_witness:
  "CHR '':'' \<notin> set ''1'' \<and> py_int ''1'' = Some 1
   \<and> get_case (store_of [case_record OPEN 100 test_settings] []) 1
       = Some (case_record OPEN 100 test_settings)
   \<and> status (case_record OPEN 100 test_settings) = OPEN
   \<and> ChatSettings_init (config_snapshot (case_record OPEN 100 test_settings)) = Inr test_settings
   \<and> vote_keys_distinct (store_of [case_record OPEN 100 test_settings] [])
   \<and> CHR '':'' \<notin> set ''garbage'' \<and> ''garbage'' \<noteq> ''spam'' \<and> ''garbage'' \<noteq> ''retract''
   \<and> action_on_confirm test_settings \<noteq> ''mute''
   \<and> votes_of (snd (handle_vote_callback all_succeed 50 (vote_callback ''1'' ''garbage'' 7)
                      (store_of [case_record OPEN 100 test_settings] []))) 1 7
      = [\<lparr>case_id = 1, voter_id = 7, decision = NOT_SPAM, updated_at = 50\<rparr>]
   \<and> fst (handle_vote_callback all_succeed 50 (vote_callback ''1'' ''garbage'' 7)
                      (store_of [case_record OPEN 100 test_settings] [])) = None"
  using unknown_token_counts_as_not_spam [of "''1''" 1
      "store_of [case_record OPEN 100 test_settings] []" "case_record OPEN 100 test_settings"
      test_settings "''garbage''" all_succeed 50 7]
  by (simp add: py_int_1 get_case_def store_of_def case_record_def ChatSettings_init_def
      test_settings_def default_settings_def field_bounds_def literals_ok_def
      vote_keys_distinct_def all_succeed_def)

lemma test_snapshot_valid: "ChatSettings_init test_settings = Inr test_settings"
  by (simp add: ChatSettings_init_def test_settings_def default_settings_def field_bounds_def
      literals_ok_def)

text \<open>
  Claim C7. A vote callback on an OPEN case keeps at most one vote per (case, voter):
  the key invariant of the votes table is preserved; after a cast the voter has exactly
  one vote with the decision cast, so Spam followed by NotSpam (the case still OPEN at
  the second cast) leaves the single vote NotSpam; a permitted retract leaves the voter
  with no vote; a retract while the snapshot forbids retraction is answered with the
  retract-disabled text and changes no vote.
\<close>

theorem one_vote_per_voter:
  assumes "CHR '':'' \<notin> set cs" and "py_int cs = Some cid"
    and "get_case w cid = Some c" and "status c = OPEN"
    and "ChatSettings_init (config_snapshot c) = Inr settings"
    and "vote_keys_distinct w"
  shows
    "(vote_keys_distinct (snd (handle_vote_callback client now (vote_callback cs ''spam'' voter) w))
      \<and> votes_of (snd (handle_vote_callback client now (vote_callback cs ''spam'' voter) w)) cid voter
          = [\<lparr>case_id = cid, voter_id = voter, decision = SPAM, updated_at = now\<rparr>])
   \<and> (vote_keys_distinct (snd (handle_vote_callback client now (vote_callback cs ''not'' voter) w))
      \<and> votes_of (snd (handle_vote_callback client now (vote_callback cs ''not'' voter) w)) cid voter
          = [\<lparr>case_id = cid, voter_id = voter, decision = NOT_SPAM, updated_at = now\<rparr>])
   \<and> (\<forall>c1 settings1.
         get_case (snd (handle_vote_callback client now (vote_callback cs ''spam'' voter) w)) cid
           = Some c1
         \<and> status c1 = OPEN \<and> ChatSettings_init (config_snapshot c1) = Inr settings1
         \<longrightarrow> votes_of
               (snd (handle_vote_callback client2 now2 (vote_callback cs ''not'' voter)
                      (snd (handle_vote_callback client now (vote_callback cs ''spam'' voter) w))))
               cid voter
             = [\<lparr>case_id = cid, voter_id = voter, decision = NOT_SPAM, updated_at = now2\<rparr>])
   \<and> (allow_vote_retract settings
        \<longrightarrow> vote_keys_distinct
              (snd (handle_vote_callback client now (vote_callback cs ''retract'' voter) w))
          \<and> votes_of (snd (handle_vote_callback client now (vote_callback cs ''retract'' voter) w))
               cid voter = [])
   \<and> (\<not> allow_vote_retract settings
        \<longrightarrow> handle_vote_callback client now (vote_callback cs ''retract'' voter) w
              = (None, answer RetractDisabled True w)
          \<and> votes (answer RetractDisabled True w) = votes w)"
proof -
  have vs: "votes (snd (handle_vote_callback client now (vote_callback cs ''spam'' voter) w))
      = votes (record_vote cid voter SPAM now w)"
    using cast_votes [OF assms(1-5), of "''spam''" client now voter, THEN conjunct2, THEN conjunct1]
    by simp
  have spam: "vote_keys_distinct (snd (handle_vote_callback client now (vote_callback cs ''spam'' voter) w))
      \<and> votes_of (snd (handle_vote_callback client now (vote_callback cs ''spam'' voter) w)) cid voter
          = [\<lparr>case_id = cid, voter_id = voter, decision = SPAM, updated_at = now\<rparr>]"
    using votes_of_record_vote [OF assms(6) vs] by blast
  have vn: "votes (snd (handle_vote_callback client now (vote_callback cs ''not'' voter) w))
      = votes (record_vote cid voter NOT_SPAM now w)"
    using cast_votes [OF assms(1-5), of "''not''" client now voter, THEN conjunct2, THEN conjunct1]
    by simp
  have nots: "vote_keys_distinct (snd (handle_vote_callback client now (vote_callback cs ''not'' voter) w))
      \<and> votes_of (snd (handle_vote_callback client now (vote_callback cs ''not'' voter) w)) cid voter
          = [\<lparr>case_id = cid, voter_id = voter, decision = NOT_SPAM, updated_at = now\<rparr>]"
    using votes_of_record_vote [OF assms(6) vn] by blast
  have seq: "votes_of
               (snd (handle_vote_callback client2 now2 (vote_callback cs ''not'' voter)
                      (snd (handle_vote_callback client now (vote_callback cs ''spam'' voter) w))))
               cid voter
             = [\<lparr>case_id = cid, voter_id = voter, decision = NOT_SPAM, updated_at = now2\<rparr>]"
    if "get_case (snd (handle_vote_callback client now (vote_callback cs ''spam'' voter) w)) cid
           = Some c1"
      and "status c1 = OPEN" and "ChatSettings_init (config_snapshot c1) = Inr settings1"
    for c1 settings1
  proof -
    let ?wa = "snd (handle_vote_callback client now (vote_callback cs ''spam'' voter) w)"
    have d1: "vote_keys_distinct ?wa" using spam by simp
    have v2: "votes (snd (handle_vote_callback client2 now2 (vote_callback cs ''not'' voter) ?wa))
        = votes (record_vote cid voter NOT_SPAM now2 ?wa)"
      using cast_votes [OF assms(1) assms(2) that, of "''not''" client2 now2 voter,
          THEN conjunct2, THEN conjunct1]
      by simp
    show ?thesis
      using votes_of_record_vote [OF d1 v2] by blast
  qed
  have retr: "vote_keys_distinct
              (snd (handle_vote_callback client now (vote_callback cs ''retract'' voter) w))
          \<and> votes_of (snd (handle_vote_callback client now (vote_callback cs ''retract'' voter) w))
               cid voter = []"
    if "allow_vote_retract settings"
  proof -
    have "handle_vote_callback client now (vote_callback cs ''retract'' voter) w
        = refresh_poll client now c settings
            (answer VoteRecorded False (retract_vote cid voter w))"
      using retract_votes [OF assms(1-5), of client now voter] that by simp
    then have "votes (snd (handle_vote_callback client now (vote_callback cs ''retract'' voter) w))
        = votes (retract_vote cid voter w)"
      by simp
    then show ?thesis
      using votes_of_retract_vote [OF assms(6)] by blast
  qed
  have noretr: "handle_vote_callback client now (vote_callback cs ''retract'' voter) w
              = (None, answer RetractDisabled True w)
          \<and> votes (answer RetractDisabled True w) = votes w"
    if "\<not> allow_vote_retract settings"
    using retract_votes [OF assms(1-5), of client now voter] that by simp
  from spam nots seq retr noretr show ?thesis by blast
qed

text \<open>
  The hypotheses hold on the open case of the test: voter 7 casts Spam, the case stays
  OPEN, then NotSpam; a retract with retraction allowed; a retract with it forbidden.
\<close>

theorem one_vote_per_voter_witness:
  "votes_of (snd (handle_vote_callback all_succeed 50 (vote_callback ''1'' ''spam'' 7)
               (store_of [case_record OPEN 100 test_settings] []))) 1 7
     = [\<lparr>case_id = 1, voter_id = 7, decision = SPAM, updated_at = 50\<rparr>]
   \<and> get_case (snd (handle_vote_callback all_succeed 50 (vote_callback ''1'' ''spam'' 7)
               (store_of [case_record OPEN 100 test_settings] []))) 1
     = Some (case_record OPEN 100 test_settings)
   \<and> votes_of
       (snd (handle_vote_callback all_succeed 60 (vote_callback ''1'' ''not'' 7)
         (snd (handle_vote_callback all_succeed 50 (vote_callback ''1'' ''spam'' 7)
               (store_of [case_record OPEN 100 test_settings] []))))) 1 7
     = [\<lparr>case_id = 1, voter_id = 7, decision = NOT_SPAM, updated_at = 60\<rparr>]
   \<and> allow_vote_retract test_settings
   \<and> votes_of (snd (handle_vote_callback all_succeed 50 (vote_callback ''1'' ''retract'' 7)
               (store_of [case_record OPEN 100 test_settings]
                  [\<lparr>case_id = 1, voter_id = 7, decision = SPAM, updated_at = 40\<rparr>]))) 1 7 = []
   \<and> \<not> allow_vote_retract (test_settings\<lparr>allow_vote_retract := False\<rparr>)
   \<and> votes (snd (handle_vote_callback all_succeed 50 (vote_callback ''1'' ''retract'' 7)
               (store_of [case_record OPEN 100 (test_settings\<lparr>allow_vote_retract := False\<rparr>)]
                  [\<lparr>case_id = 1, voter_id = 7, decision = SPAM, updated_at = 40\<rparr>])))
     = [\<lparr>case_id = 1, voter_id = 7, decision = SPAM, updated_at = 40\<rparr>]
   \<and> new_events
        (store_of [case_record OPEN 100 (test_settings\<lparr>allow_vote_retract := False\<rparr>)]
                  [\<lparr>case_id = 1, voter_id = 7, decision = SPAM, updated_at = 40\<rparr>])
        (snd (handle_vote_callback all_succeed 50 (vote_callback ''1'' ''retract'' 7)
               (store_of [case_record OPEN 100 (test_settings\<lparr>allow_vote_retract := False\<rparr>)]
                  [\<lparr>case_id = 1, voter_id = 7, decision = SPAM, updated_at = 40\<rparr>])))
     = [Answer RetractDisabled True]"
proof -
  let ?c = "case_record OPEN 100 test_settings"
  let ?W = "store_of [?c] []"
  let ?v = "\<lparr>case_id = 1, voter_id = 7, decision = SPAM, updated_at = 40\<rparr>"
  let ?W' = "store_of [?c] [?v]"
  let ?sn = "test_settings\<lparr>allow_vote_retract := False\<rparr>"
  let ?cn = "case_record OPEN 100 ?sn"
  let ?Wn = "store_of [?cn] [?v]"
  have colon: "CHR '':'' \<notin> set ''1''" by simp
  have open_c: "status ?c = OPEN" "status ?cn = OPEN" by (simp_all add: case_record_def)
  have snap: "ChatSettings_init (config_snapshot ?c) = Inr test_settings"
    by (simp add: case_record_def test_snapshot_valid)
  have snap0: "ChatSettings_init (config_snapshot ?cn) = Inr ?sn"
    by (simp add: case_record_def ChatSettings_init_def test_settings_def default_settings_def
        field_bounds_def literals_ok_def)
  have g: "get_case ?W 1 = Some ?c" "get_case ?W' 1 = Some ?c" "get_case ?Wn 1 = Some ?cn"
    by (simp_all add: get_case_def store_of_def case_record_def)
  have d: "vote_keys_distinct ?W" "vote_keys_distinct ?W'" "vote_keys_distinct ?Wn"
    by (simp_all add: vote_keys_distinct_def store_of_def)
  note t1 = one_vote_per_voter [OF colon py_int_1 g(1) open_c(1) snap d(1),
      of all_succeed 50 7 all_succeed 60]
  note t2 = one_vote_per_voter [OF colon py_int_1 g(2) open_c(1) snap d(2),
      of all_succeed 50 7 all_succeed 60]
  note t3 = one_vote_per_voter [OF colon py_int_1 g(3) open_c(2) snap0 d(3),
      of all_succeed 50 7 all_succeed 60]
  let ?wa = "snd (handle_vote_callback all_succeed 50 (vote_callback ''1'' ''spam'' 7) ?W)"
  have h1: "handle_vote_callback all_succeed 50 (vote_callback ''1'' ''spam'' 7) ?W
      = refresh_poll all_succeed 50 ?c test_settings
          (answer VoteRecorded False (record_vote 1 7 SPAM 50 ?W))"
    using handle_vote_callback_open [of "vote_callback ''1'' ''spam'' 7" "''1''" "''spam''" 1 ?W ?c
        test_settings all_succeed 50] py_int_1 g(1) open_c(1) snap
    by (simp add: vote_callback_def)
  have "get_case (snd (refresh_poll all_succeed 50 ?c test_settings
                (answer VoteRecorded False (record_vote 1 7 SPAM 50 ?W)))) 1 = Some ?c"
    by (simp add: refresh_poll_def maybe_resolve_def Let_def get_votes_def record_vote_def
        answer_def store_of_def case_record_def participation_met_def test_settings_def
        default_settings_def poll_location_def get_case_def)
  then have still: "get_case ?wa 1 = Some ?c"
    by (simp only: h1)
  have a1: "votes_of ?wa 1 7 = [\<lparr>case_id = 1, voter_id = 7, decision = SPAM, updated_at = 50\<rparr>]"
    using t1 by blast
  have a2: "votes_of (snd (handle_vote_callback all_succeed 60 (vote_callback ''1'' ''not'' 7) ?wa)) 1 7
     = [\<lparr>case_id = 1, voter_id = 7, decision = NOT_SPAM, updated_at = 60\<rparr>]"
    using t1 still open_c(1) snap by blast
  have al: "allow_vote_retract test_settings" "\<not> allow_vote_retract ?sn"
    by (simp_all add: test_settings_def default_settings_def)
  have a3: "votes_of (snd (handle_vote_callback all_succeed 50 (vote_callback ''1'' ''retract'' 7) ?W')) 1 7 = []"
    using t2 al(1) by blast
  have a4: "handle_vote_callback all_succeed 50 (vote_callback ''1'' ''retract'' 7) ?Wn
      = (None, answer RetractDisabled True ?Wn)"
    using t3 al(2) by blast
  have a5: "votes (snd (handle_vote_callback all_succeed 50 (vote_callback ''1'' ''retract'' 7) ?Wn)) = [?v]"
    by (simp only: a4 snd_conv) (simp add: store_of_def)
  have a6: "new_events ?Wn (snd (handle_vote_callback all_succeed 50 (vote_callback ''1'' ''retract'' 7) ?Wn))
     = [Answer RetractDisabled True]"
    by (simp add: a4 new_events_def)
  from a1 still a2 al a3 a5 a6 show ?thesis by simp
qed

section \<open>Shape of an evaluation\<close>

lemma refresh_poll_outcome:
  "(cases (snd (refresh_poll client now c settings w)) = cases w
      \<and> blacklist (snd (refresh_poll client now c settings w)) = blacklist w
      \<and> (\<exists>es. trace (snd (refresh_poll client now c settings w)) = trace w @ es
                \<and> list_all quiet_event es))
   \<or> (status c = OPEN \<and> closes_at c \<le> now
       \<and> refresh_poll client now c settings w
           = (fst (fst (close_case client c settings True w)),
              snd (close_case client c settings True w)))
   \<or> (status c = OPEN \<and> now < closes_at c
       \<and> refresh_poll client now c settings w
           = (fst (fst (confirm_case client now c settings w)),
              snd (confirm_case client now c settings w)))"
proof -
  let ?sv = "int (length (filter (\<lambda>v. decision v = SPAM) (get_votes w (id' c))))"
  let ?nsv = "int (length (filter (\<lambda>v. decision v = NOT_SPAM) (get_votes w (id' c))))"
  let ?tot = "int (length (get_votes w (id' c)))"
  consider (same) "maybe_resolve client now c settings ?sv ?nsv ?tot w = ((None, c), w)"
    | (close) "status c = OPEN" "closes_at c \<le> now"
        "maybe_resolve client now c settings ?sv ?nsv ?tot w = close_case client c settings True w"
    | (confirm) "status c = OPEN" "now < closes_at c"
        "maybe_resolve client now c settings ?sv ?nsv ?tot w = confirm_case client now c settings w"
    using maybe_resolve_cases [of client now c settings ?sv ?nsv ?tot w] by blast
  then show ?thesis
  proof cases
    case same
    have "cases (snd (refresh_poll client now c settings w)) = cases w
      \<and> blacklist (snd (refresh_poll client now c settings w)) = blacklist w
      \<and> (\<exists>es. trace (snd (refresh_poll client now c settings w)) = trace w @ es
                \<and> list_all quiet_event es)"
      unfolding refresh_poll_steps [OF same]
      by (simp split: option.splits)
    then show ?thesis by blast
  next
    case close
    let ?r = "close_case client c settings True w"
    have ne: "status (snd (fst ?r)) \<noteq> OPEN" by simp
    have eq: "maybe_resolve client now c settings ?sv ?nsv ?tot w
        = ((fst (fst ?r), snd (fst ?r)), snd ?r)"
      by (simp only: close(3) prod.collapse)
    have "refresh_poll client now c settings w = (fst (fst ?r), snd ?r)"
      unfolding refresh_poll_steps [OF eq] using ne by auto
    then show ?thesis using close by blast
  next
    case confirm
    let ?r = "confirm_case client now c settings w"
    have ne: "status (snd (fst ?r)) \<noteq> OPEN" by simp
    have eq: "maybe_resolve client now c settings ?sv ?nsv ?tot w
        = ((fst (fst ?r), snd (fst ?r)), snd ?r)"
      by (simp only: confirm(3) prod.collapse)
    have "refresh_poll client now c settings w = (fst (fst ?r), snd ?r)"
      unfolding refresh_poll_steps [OF eq] using ne by auto
    then show ?thesis using confirm by blast
  qed
qed

lemma handle_vote_callback_shape:
  "(cases (snd (handle_vote_callback client now cb w)) = cases w
      \<and> blacklist (snd (handle_vote_callback client now cb w)) = blacklist w
      \<and> (\<exists>es. trace (snd (handle_vote_callback client now cb w)) = trace w @ es
                \<and> list_all quiet_event es))
   \<or> (\<exists>c settings w0.
         get_case w (id' c) = Some c \<and> status c = OPEN
         \<and> ChatSettings_init (config_snapshot c) = Inr settings
         \<and> cases w0 = cases w \<and> blacklist w0 = blacklist w
         \<and> trace w0 = trace w @ [Answer VoteRecorded False]
         \<and> handle_vote_callback client now cb w = refresh_poll client now c settings w0)"
proof -
  let ?parts = "split (CHR '':'') (case data cb of None \<Rightarrow> [] | Some d \<Rightarrow> d)"
  show ?thesis
  proof (cases "length ?parts = 4 \<and> ?parts ! 1 = ''vote''")
    case False
    then show ?thesis
      by (auto simp add: handle_vote_callback_def Let_def)
  next
    case True
    note parts = True
    show ?thesis
    proof (cases "py_int (?parts ! 2)")
      case None
      then show ?thesis using parts by (simp add: handle_vote_callback_def Let_def)
    next
      case (Some cid)
      note cid = Some
      show ?thesis
      proof (cases "get_case w cid")
        case None
        then show ?thesis using parts cid by (simp add: handle_vote_callback_def Let_def)
      next
        case (Some c)
        note c = Some
        have i: "id' c = cid" using c by (rule get_case_id)
        show ?thesis
        proof (cases "status c = OPEN")
          case False
          then show ?thesis using parts cid c by (simp add: handle_vote_callback_def Let_def)
        next
          case True
          note st = True
          show ?thesis
          proof (cases "ChatSettings_init (config_snapshot c)")
            case (Inl e)
            then show ?thesis using parts cid c st
              by (simp add: handle_vote_callback_def Let_def)
          next
            case (Inr settings)
            note v = Inr
            show ?thesis
            proof (cases "?parts ! 3 = ''retract'' \<and> \<not> allow_vote_retract settings")
              case True
              then show ?thesis using parts cid c st v
                by (simp add: handle_vote_callback_def Let_def)
            next
              case False
              note ok = False
              have "\<exists>w0. cases w0 = cases w \<and> blacklist w0 = blacklist w
                  \<and> trace w0 = trace w @ [Answer VoteRecorded False]
                  \<and> handle_vote_callback client now cb w
                      = refresh_poll client now c settings w0"
              proof (cases "?parts ! 3 = ''retract''")
                case True
                then have "handle_vote_callback client now cb w
                    = refresh_poll client now c settings
                        (answer VoteRecorded False (retract_vote cid (from_user cb) w))"
                  using ok parts cid c st v by (simp add: handle_vote_callback_def Let_def i)
                then show ?thesis
                  by (intro exI [of _ "answer VoteRecorded False (retract_vote cid (from_user cb) w)"])
                    simp
              next
                case False
                then have "handle_vote_callback client now cb w
                    = refresh_poll client now c settings
                        (answer VoteRecorded False
                           (record_vote cid (from_user cb)
                              (if ?parts ! 3 = ''spam'' then SPAM else NOT_SPAM) now w))"
                  using parts cid c st v by (simp add: handle_vote_callback_def Let_def i)
                then show ?thesis
                  by (intro exI [of _ "answer VoteRecorded False
                            (record_vote cid (from_user cb)
                               (if ?parts ! 3 = ''spam'' then SPAM else NOT_SPAM) now w)"])
                    simp
              qed
              then show ?thesis using c st v i by blast
            qed
          qed
        qed
      qed
    qed
  qed
qed

lemma get_case_map_status:
  assumes "cases w' = map (\<lambda>x. if id' x = j then x\<lparr>status := st\<rparr> else x) (cases w)"
  shows "get_case w' k
         = (if k = j then map_option (\<lambda>x. x\<lparr>status := st\<rparr>) (get_case w k) else get_case w k)"
  using assms by (simp add: get_case_def find_map_status)


lemma action_no_marker: "list_all action_event es \<Longrightarrow> EnforceActions k \<notin> set es"
  by (auto simp add: list_all_iff)

lemma vote_event_outcome:
  "(cases (snd (handle_vote_callback client now cb w)) = cases w
      \<and> (\<exists>es. trace (snd (handle_vote_callback client now cb w)) = trace w @ es
                \<and> list_all quiet_event es))
   \<or> (\<exists>c es. get_case w (id' c) = Some c \<and> status c = OPEN \<and> closes_at c \<le> now
         \<and> cases (snd (handle_vote_callback client now cb w))
             = map (\<lambda>x. if id' x = id' c then x\<lparr>status := EXPIRED\<rparr> else x) (cases w)
         \<and> trace (snd (handle_vote_callback client now cb w))
             = trace w @ Answer VoteRecorded False # SetCaseStatus (id' c) EXPIRED # es
         \<and> list_all quiet_event es)
   \<or> (\<exists>c rest. get_case w (id' c) = Some c \<and> status c = OPEN \<and> now < closes_at c
         \<and> cases (snd (handle_vote_callback client now cb w))
             = map (\<lambda>x. if id' x = id' c then x\<lparr>status := CONFIRMED\<rparr> else x) (cases w)
         \<and> trace (snd (handle_vote_callback client now cb w))
             = trace w @ Answer VoteRecorded False # SetCaseStatus (id' c) CONFIRMED
                 # EnforceActions (id' c) # rest
         \<and> list_all action_event rest)"
proof -
  consider (quiet) "cases (snd (handle_vote_callback client now cb w)) = cases w
      \<and> (\<exists>es. trace (snd (handle_vote_callback client now cb w)) = trace w @ es
                \<and> list_all quiet_event es)"
    | (refresh) c settings w0 where "get_case w (id' c) = Some c" "status c = OPEN"
         "cases w0 = cases w" "trace w0 = trace w @ [Answer VoteRecorded False]"
         "handle_vote_callback client now cb w = refresh_poll client now c settings w0"
    using handle_vote_callback_shape [of client now cb w] by blast
  then show ?thesis
  proof cases
    case quiet
    then show ?thesis by blast
  next
    case refresh
    let ?w' = "snd (refresh_poll client now c settings w0)"
    have s: "snd (handle_vote_callback client now cb w) = ?w'" using refresh(5) by simp
    consider (q) "cases ?w' = cases w0" "\<exists>es. trace ?w' = trace w0 @ es \<and> list_all quiet_event es"
      | (x) "closes_at c \<le> now" "?w' = snd (close_case client c settings True w0)"
      | (cf) "now < closes_at c" "?w' = snd (confirm_case client now c settings w0)"
      using refresh_poll_outcome [of client now c settings w0] by auto
    then show ?thesis
    proof cases
      case q
      then obtain es where "trace ?w' = trace w0 @ es" "list_all quiet_event es" by blast
      then have "trace ?w' = trace w @ (Answer VoteRecorded False # es)
          \<and> list_all quiet_event (Answer VoteRecorded False # es)"
        using refresh(4) by simp
      then have "\<exists>es. trace ?w' = trace w @ es \<and> list_all quiet_event es"
        by (rule exI)
      moreover have "cases ?w' = cases w" using q(1) refresh(3) by simp
      ultimately have "cases ?w' = cases w
          \<and> (\<exists>es. trace ?w' = trace w @ es \<and> list_all quiet_event es)"
        by simp
      then show ?thesis using s by simp
    next
      case x
      have "cases ?w' = map (\<lambda>x. if id' x = id' c then x\<lparr>status := EXPIRED\<rparr> else x) (cases w)"
        using x(2) refresh(3) by simp
      moreover have "\<exists>es. trace ?w' = trace w @ Answer VoteRecorded False
            # SetCaseStatus (id' c) EXPIRED # es \<and> list_all quiet_event es"
        using x(2) refresh(4) by (simp add: close_case_trace split: option.splits)
      ultimately show ?thesis using s refresh(1,2) x(1) by auto
    next
      case cf
      have "cases ?w' = map (\<lambda>x. if id' x = id' c then x\<lparr>status := CONFIRMED\<rparr> else x) (cases w)"
        using cf(2) refresh(3) by simp
      moreover have "\<exists>rest. trace ?w' = trace w @ Answer VoteRecorded False
            # SetCaseStatus (id' c) CONFIRMED # EnforceActions (id' c) # rest
            \<and> list_all action_event rest"
        using confirm_case_trace [of client now c settings w0] cf(2) refresh(4) by simp
      ultimately show ?thesis using s refresh(1,2) cf(1) by auto
    qed
  qed
qed

lemma schedule_expiry_check_open:
  assumes "get_case w cid = Some c" and "status c = OPEN"
    and "ChatSettings_init (config_snapshot c) = Inr settings"
  shows "schedule_expiry_check client now cid closes w
     = (fst (fst (close_case client c settings True (sleep (max (closes - now) 0) w))),
        snd (close_case client c settings True (sleep (max (closes - now) 0) w)))"
proof -
  have g: "get_case (sleep (max (closes - now) 0) w) cid = Some c"
    using assms(1) by (simp add: get_case_def)
  show ?thesis
    using g assms(2,3)
    by (simp add: schedule_expiry_check_def Let_def split: prod.splits)
qed

lemma timer_outcome:
  "(cases (snd (schedule_expiry_check client now cid closes w)) = cases w
      \<and> (\<exists>es. trace (snd (schedule_expiry_check client now cid closes w)) = trace w @ es
                \<and> list_all quiet_event es))
   \<or> (\<exists>c es. get_case w (id' c) = Some c \<and> id' c = cid \<and> status c = OPEN
         \<and> cases (snd (schedule_expiry_check client now cid closes w))
             = map (\<lambda>x. if id' x = id' c then x\<lparr>status := EXPIRED\<rparr> else x) (cases w)
         \<and> trace (snd (schedule_expiry_check client now cid closes w))
             = trace w @ Sleep (max (closes - now) 0) # SetCaseStatus (id' c) EXPIRED # es
         \<and> list_all quiet_event es)"
proof -
  let ?w1 = "sleep (max (closes - now) 0) w"
  have g: "get_case ?w1 cid = get_case w cid" by (simp add: get_case_def)
  show ?thesis
  proof (cases "get_case w cid")
    case None
    then show ?thesis by (simp add: schedule_expiry_check_def Let_def g)
  next
    case (Some c)
    have i: "id' c = cid" using Some by (rule get_case_id)
    show ?thesis
    proof (cases "status c = OPEN")
      case False
      then show ?thesis using Some by (simp add: schedule_expiry_check_def Let_def g)
    next
      case True
      show ?thesis
      proof (cases "ChatSettings_init (config_snapshot c)")
        case (Inl e)
        then show ?thesis using Some True by (simp add: schedule_expiry_check_def Let_def g)
      next
        case (Inr settings)
        have s: "snd (schedule_expiry_check client now cid closes w)
            = snd (close_case client c settings True ?w1)"
          using schedule_expiry_check_open [OF Some True Inr, of client now closes] by simp
        have "cases (snd (close_case client c settings True ?w1))
             = map (\<lambda>x. if id' x = id' c then x\<lparr>status := EXPIRED\<rparr> else x) (cases w)"
          by simp
        moreover have "\<exists>es. trace (snd (close_case client c settings True ?w1))
             = trace w @ Sleep (max (closes - now) 0) # SetCaseStatus (id' c) EXPIRED # es
           \<and> list_all quiet_event es"
          by (simp add: close_case_trace split: option.splits)
        ultimately show ?thesis using s Some True i by auto
      qed
    qed
  qed
qed

lemma close_case_get_case:
  "get_case (snd (close_case client c settings True w)) k
   = (if k = id' c then map_option (\<lambda>x. x\<lparr>status := EXPIRED\<rparr>) (get_case w k)
      else get_case w k)"
  using get_case_map_status [of "snd (close_case client c settings True w)" "id' c" EXPIRED w k]
  by simp

text \<open>One turn of the loop of the sweep on a case that is due.\<close>

lemma expire_loop_step:
  assumes "closes_at x \<le> now" and "ChatSettings_init (config_snapshot x) = Inr settings"
  shows "expire_loop client now (x # xs) w
     = (if fst (fst (close_case client x settings True w)) \<noteq> None
        then (fst (fst (close_case client x settings True w)),
              snd (close_case client x settings True w))
        else expire_loop client now xs (snd (close_case client x settings True w)))"
  using assms by (auto split: prod.splits option.splits)


lemma expire_loop_same_or_expired:
  "get_case (snd (expire_loop client now cs w)) k = get_case w k
   \<or> get_case (snd (expire_loop client now cs w)) k
       = map_option (\<lambda>x. x\<lparr>status := EXPIRED\<rparr>) (get_case w k)"
proof (induction cs arbitrary: w)
  case Nil
  then show ?case by simp
next
  case (Cons x xs)
  show ?case
  proof (cases "closes_at x \<le> now")
    case False
    then show ?thesis using Cons.IH [of w] by simp
  next
    case True
    show ?thesis
    proof (cases "ChatSettings_init (config_snapshot x)")
      case (Inl e)
      then show ?thesis using True by simp
    next
      case (Inr settings)
      let ?w1 = "snd (close_case client x settings True w)"
      have g1: "get_case ?w1 k
          = (if k = id' x then map_option (\<lambda>x. x\<lparr>status := EXPIRED\<rparr>) (get_case w k)
             else get_case w k)"
        by (rule close_case_get_case)
      have A: "get_case ?w1 k = get_case w k
          \<or> get_case ?w1 k = map_option (\<lambda>x. x\<lparr>status := EXPIRED\<rparr>) (get_case w k)"
        using g1 by (simp split: if_splits)
      have B: "get_case (snd (expire_loop client now xs ?w1)) k = get_case ?w1 k
          \<or> get_case (snd (expire_loop client now xs ?w1)) k
              = map_option (\<lambda>x. x\<lparr>status := EXPIRED\<rparr>) (get_case ?w1 k)"
        by (rule Cons.IH)
      have C: "map_option (\<lambda>x. x\<lparr>status := EXPIRED\<rparr>)
                 (map_option (\<lambda>x. x\<lparr>status := EXPIRED\<rparr>) (get_case w k))
               = map_option (\<lambda>x. x\<lparr>status := EXPIRED\<rparr>) (get_case w k)"
        by (simp add: option.map_comp comp_def)
      from A B C show ?thesis
        unfolding expire_loop_step [OF True Inr] by auto
    qed
  qed
qed

lemma expire_loop_trace:
  "\<exists>es. trace (snd (expire_loop client now cs w)) = trace w @ es
        \<and> list_all (\<lambda>e. quiet_event e \<or> status_write e) es"
proof (induction cs arbitrary: w)
  case Nil
  then show ?case by simp
next
  case (Cons x xs)
  show ?case
  proof (cases "closes_at x \<le> now")
    case False
    then show ?thesis using Cons.IH [of w] by simp
  next
    case True
    show ?thesis
    proof (cases "ChatSettings_init (config_snapshot x)")
      case (Inl e)
      then show ?thesis using True by simp
    next
      case (Inr settings)
      let ?w1 = "snd (close_case client x settings True w)"
      obtain es where es: "trace (snd (expire_loop client now xs ?w1)) = trace ?w1 @ es"
          "list_all (\<lambda>e. quiet_event e \<or> status_write e) es"
        using Cons.IH [of ?w1] by blast
      obtain es1 where es1: "trace ?w1 = trace w @ es1"
          "list_all (\<lambda>e. quiet_event e \<or> status_write e) es1"
        by (simp add: close_case_trace split: option.splits)
      show ?thesis
      proof (cases "fst (fst (close_case client x settings True w)) \<noteq> None")
        case True
        then have "trace (snd (expire_loop client now (x # xs) w)) = trace w @ es1
            \<and> list_all (\<lambda>e. quiet_event e \<or> status_write e) es1"
          unfolding expire_loop_step [OF \<open>closes_at x \<le> now\<close> Inr] using es1 by simp
        then show ?thesis by (rule exI)
      next
        case False
        then have "trace (snd (expire_loop client now (x # xs) w)) = trace w @ (es1 @ es)
            \<and> list_all (\<lambda>e. quiet_event e \<or> status_write e) (es1 @ es)"
          unfolding expire_loop_step [OF \<open>closes_at x \<le> now\<close> Inr] using es es1 by simp
        then show ?thesis by (rule exI)
      qed
    qed
  qed
qed

lemma expire_loop_expires:
  assumes "fst (expire_loop client now cs w) = None"
    and "c \<in> set cs" and "closes_at c \<le> now" and "get_case w (id' c) = Some c0"
  shows "map_option status (get_case (snd (expire_loop client now cs w)) (id' c)) = Some EXPIRED"
  using assms
proof (induction cs arbitrary: w c0)
  case Nil
  then show ?case by simp
next
  case (Cons x xs)
  show ?case
  proof (cases "closes_at x \<le> now")
    case False
    then have "c \<in> set xs" using Cons.prems(2,3) by auto
    moreover have "fst (expire_loop client now xs w) = None"
      using Cons.prems(1) False by simp
    ultimately show ?thesis
      using Cons.IH [OF _ _ Cons.prems(3) Cons.prems(4)] False by simp
  next
    case True
    obtain settings where vx: "ChatSettings_init (config_snapshot x) = Inr settings"
      using Cons.prems(1) True by (cases "ChatSettings_init (config_snapshot x)") auto
    let ?w1 = "snd (close_case client x settings True w)"
    have ne: "fst (fst (close_case client x settings True w)) = None"
      using Cons.prems(1) unfolding expire_loop_step [OF True vx]
      by (auto split: if_splits)
    have e: "expire_loop client now (x # xs) w = expire_loop client now xs ?w1"
      unfolding expire_loop_step [OF True vx] using ne by simp
    have n1: "fst (expire_loop client now xs ?w1) = None"
      using Cons.prems(1) unfolding e .
    show ?thesis
    proof (cases "id' x = id' c")
      case True
      have g1: "map_option status (get_case ?w1 (id' c)) = Some EXPIRED"
        using Cons.prems(4) True by (simp add: close_case_get_case)
      show ?thesis
        unfolding e
        using expire_loop_same_or_expired [of client now xs ?w1 "id' c"] g1
        by (auto simp add: option.map_comp comp_def)
    next
      case False
      then have "c \<in> set xs" using Cons.prems(2) by auto
      moreover have "get_case ?w1 (id' c) = Some c0"
        using Cons.prems(4) False by (simp add: close_case_get_case)
      ultimately show ?thesis
        unfolding e using Cons.IH [OF n1 _ Cons.prems(3)] by simp
    qed
  qed
qed

lemma expire_loop_completes:
  assumes "list_all (\<lambda>r. field_bounds (config_snapshot r) \<and> literals_ok (config_snapshot r)) cs"
    and "\<forall>call. client call \<noteq> OtherError"
  shows "fst (expire_loop client now cs w) = None"
  using assms(1)
proof (induction cs arbitrary: w)
  case Nil
  then show ?case by simp
next
  case (Cons x xs)
  have vx: "ChatSettings_init (config_snapshot x) = Inr (config_snapshot x)"
    using Cons.prems by (simp add: ChatSettings_init_def)
  have vxs: "list_all (\<lambda>r. field_bounds (config_snapshot r) \<and> literals_ok (config_snapshot r)) xs"
    using Cons.prems by simp
  show ?case
  proof (cases "closes_at x \<le> now")
    case False
    then show ?thesis using Cons.IH [OF vxs, of w] by simp
  next
    case True
    have "fst (fst (close_case client x (config_snapshot x) True w)) = None"
      using close_case_exn(2) [OF assms(2)] by simp
    then show ?thesis
      unfolding expire_loop_step [OF True vx]
      using Cons.IH [OF vxs] by simp
  qed
qed

section \<open>Status transitions\<close>

lemma new_events_eq: "trace w' = trace w @ es \<Longrightarrow> new_events w w' = es"
  by (simp add: new_events_def)


lemma vote_event_cases:
  obtains (q) es where "cases (snd (handle_vote_callback client now cb w)) = cases w"
        "trace (snd (handle_vote_callback client now cb w)) = trace w @ es"
        "list_all quiet_event es"
    | (x) c0 es where "get_case w (id' c0) = Some c0" "status c0 = OPEN"
        "cases (snd (handle_vote_callback client now cb w))
           = map (\<lambda>x. if id' x = id' c0 then x\<lparr>status := EXPIRED\<rparr> else x) (cases w)"
        "trace (snd (handle_vote_callback client now cb w))
           = trace w @ Answer VoteRecorded False # SetCaseStatus (id' c0) EXPIRED # es"
        "list_all quiet_event es"
    | (cf) c0 rest where "get_case w (id' c0) = Some c0" "status c0 = OPEN"
        "cases (snd (handle_vote_callback client now cb w))
           = map (\<lambda>x. if id' x = id' c0 then x\<lparr>status := CONFIRMED\<rparr> else x) (cases w)"
        "trace (snd (handle_vote_callback client now cb w))
           = trace w @ Answer VoteRecorded False # SetCaseStatus (id' c0) CONFIRMED
                 # EnforceActions (id' c0) # rest"
        "list_all action_event rest"
  using vote_event_outcome [of client now cb w] by blast

lemma timer_cases:
  obtains (q) es where "cases (snd (schedule_expiry_check client now cid closes w)) = cases w"
        "trace (snd (schedule_expiry_check client now cid closes w)) = trace w @ es"
        "list_all quiet_event es"
    | (x) c0 es where "get_case w (id' c0) = Some c0" "status c0 = OPEN"
        "cases (snd (schedule_expiry_check client now cid closes w))
           = map (\<lambda>x. if id' x = id' c0 then x\<lparr>status := EXPIRED\<rparr> else x) (cases w)"
        "trace (snd (schedule_expiry_check client now cid closes w))
           = trace w @ Sleep (max (closes - now) 0) # SetCaseStatus (id' c0) EXPIRED # es"
        "list_all quiet_event es"
  using timer_outcome [of client now cid closes w] by blast



lemma evaluate_events:
  "list_all (\<lambda>e. quiet_event e \<or> status_write e) (new_events w (snd (evaluate client e w)))
   \<or> (\<exists>k c rest.
         get_case w k = Some c \<and> status c = OPEN
         \<and> get_case (snd (evaluate client e w)) k = Some (c\<lparr>status := CONFIRMED\<rparr>)
         \<and> new_events w (snd (evaluate client e w))
             = Answer VoteRecorded False # SetCaseStatus k CONFIRMED # EnforceActions k # rest
         \<and> list_all action_event rest)"
proof (cases e)
  case (VoteEvent now cb)
  let ?w' = "snd (handle_vote_callback client now cb w)"
  show ?thesis
  proof (cases rule: vote_event_cases [of client now cb w])
    case q
    then show ?thesis
      using VoteEvent by (simp add: new_events_eq [OF q(2)] list_all_iff)
  next
    case x
    then show ?thesis
      using VoteEvent by (simp add: new_events_eq [OF x(4)] list_all_iff)
  next
    case (cf c0 rest)
    have a: "get_case ?w' (id' c0) = Some (c0\<lparr>status := CONFIRMED\<rparr>)"
      using cf(1) by (simp add: get_case_map_status [OF cf(3)])
    have b: "new_events w ?w'
        = Answer VoteRecorded False # SetCaseStatus (id' c0) CONFIRMED
            # EnforceActions (id' c0) # rest"
      by (rule new_events_eq [OF cf(4)])
    have "\<exists>k c rest.
         get_case w k = Some c \<and> status c = OPEN
         \<and> get_case ?w' k = Some (c\<lparr>status := CONFIRMED\<rparr>)
         \<and> new_events w ?w'
             = Answer VoteRecorded False # SetCaseStatus k CONFIRMED # EnforceActions k # rest
         \<and> list_all action_event rest"
      by (intro exI [of _ "id' c0"] exI [of _ c0] exI [of _ rest] conjI cf(1) cf(2) a b cf(5))
    then show ?thesis using VoteEvent by simp
  qed
next
  case (TimerFired now cid closes)
  let ?w' = "snd (schedule_expiry_check client now cid closes w)"
  show ?thesis
  proof (cases rule: timer_cases [of client now cid closes w])
    case q
    then show ?thesis
      using TimerFired by (simp add: new_events_eq [OF q(2)] list_all_iff)
  next
    case x
    then show ?thesis
      using TimerFired by (simp add: new_events_eq [OF x(4)] list_all_iff)
  qed
next
  case (StartupSweep now)
  obtain es where es: "trace (snd (expire_loop client now (list_open_cases w) w)) = trace w @ es"
      "list_all (\<lambda>e. quiet_event e \<or> status_write e) es"
    using expire_loop_trace [of client now "list_open_cases w" w] by blast
  then show ?thesis
    using StartupSweep by (simp add: expire_overdue_cases_def new_events_eq [OF es(1)])
qed

section \<open>Resolution past the deadline\<close>

lemma refresh_poll_past_deadline:
  assumes "status c = OPEN" and "closes_at c \<le> now"
  shows "refresh_poll client now c settings w
     = (fst (fst (close_case client c settings True w)),
        snd (close_case client c settings True w))"
proof -
  let ?r = "close_case client c settings True w"
  have ne: "status (snd (fst ?r)) \<noteq> OPEN" by simp
  have m: "maybe_resolve client now c settings
      (int (length (filter (\<lambda>v. decision v = SPAM) (get_votes w (id' c)))))
      (int (length (filter (\<lambda>v. decision v = NOT_SPAM) (get_votes w (id' c)))))
      (int (length (get_votes w (id' c)))) w = ?r"
    using assms by (simp add: maybe_resolve_def)
  have eq: "maybe_resolve client now c settings
      (int (length (filter (\<lambda>v. decision v = SPAM) (get_votes w (id' c)))))
      (int (length (filter (\<lambda>v. decision v = NOT_SPAM) (get_votes w (id' c)))))
      (int (length (get_votes w (id' c)))) w
        = ((fst (fst ?r), snd (fst ?r)), snd ?r)"
    by (simp only: m prod.collapse)
  show ?thesis
    unfolding refresh_poll_steps [OF eq] using ne by auto
qed

lemma vote_past_deadline:
  assumes g: "get_case w cid = Some c" and st: "status c = OPEN" and dl: "closes_at c \<le> now"
    and v: "ChatSettings_init (config_snapshot c) = Inr settings"
    and cs: "CHR '':'' \<notin> set cs" and p: "py_int cs = Some cid"
    and tok: "CHR '':'' \<notin> set tok"
    and r: "tok = ''retract'' \<longrightarrow> allow_vote_retract settings"
  shows "get_case (snd (handle_vote_callback client now (vote_callback cs tok voter) w)) cid
           = Some (c\<lparr>status := EXPIRED\<rparr>)
       \<and> new_events w (snd (handle_vote_callback client now (vote_callback cs tok voter) w))
           = Answer VoteRecorded False # SetCaseStatus cid EXPIRED #
             (case poll_location c of
                None \<Rightarrow> []
              | Some (pc, pm) \<Rightarrow>
                  [BotCall (EditMessageText pc pm (ClosedText TimeoutText cid) None)
                     (client (EditMessageText pc pm (ClosedText TimeoutText cid) None))])"
proof -
  have i: "id' c = cid" using g by (rule get_case_id)
  obtain w0 where w0: "cases w0 = cases w" "trace w0 = trace w @ [Answer VoteRecorded False]"
      "handle_vote_callback client now (vote_callback cs tok voter) w
         = refresh_poll client now c settings w0"
  proof (cases "tok = ''retract''")
    case True
    then have "handle_vote_callback client now (vote_callback cs tok voter) w
         = refresh_poll client now c settings
             (answer VoteRecorded False (retract_vote cid voter w))"
      using retract_votes [OF cs p g st v, of client now voter] r by simp
    then show ?thesis
      using that [of "answer VoteRecorded False (retract_vote cid voter w)"] by simp
  next
    case False
    then have "handle_vote_callback client now (vote_callback cs tok voter) w
         = refresh_poll client now c settings
             (answer VoteRecorded False
                (record_vote cid voter (if tok = ''spam'' then SPAM else NOT_SPAM) now w))"
      using handle_vote_callback_open [of "vote_callback cs tok voter" cs tok cid w c settings
          client now] cs tok p g st v
      by (simp add: vote_callback_def)
    then show ?thesis
      using that [of "answer VoteRecorded False
                       (record_vote cid voter (if tok = ''spam'' then SPAM else NOT_SPAM) now w)"]
      by simp
  qed
  have s: "snd (handle_vote_callback client now (vote_callback cs tok voter) w)
      = snd (close_case client c settings True w0)"
    using w0(3) refresh_poll_past_deadline [OF st dl, of client settings w0] by simp
  have g0: "get_case w0 cid = Some c" using g by (simp add: get_case_cong [OF w0(1)])
  have a: "get_case (snd (close_case client c settings True w0)) cid = Some (c\<lparr>status := EXPIRED\<rparr>)"
    using g0 i by (simp add: close_case_get_case)
  have b: "trace (snd (close_case client c settings True w0))
      = trace w @ (Answer VoteRecorded False # SetCaseStatus cid EXPIRED #
             (case poll_location c of
                None \<Rightarrow> []
              | Some (pc, pm) \<Rightarrow>
                  [BotCall (EditMessageText pc pm (ClosedText TimeoutText cid) None)
                     (client (EditMessageText pc pm (ClosedText TimeoutText cid) None))]))"
    by (simp add: close_case_trace w0(2) i split: option.splits)
  show ?thesis
    unfolding s using a new_events_eq [OF b] by simp
qed

lemma timer_on_open_case:
  assumes g: "get_case w cid = Some c" and st: "status c = OPEN"
    and v: "ChatSettings_init (config_snapshot c) = Inr settings"
  shows "get_case (snd (schedule_expiry_check client t cid cl w)) cid
           = Some (c\<lparr>status := EXPIRED\<rparr>)
       \<and> new_events w (snd (schedule_expiry_check client t cid cl w))
           = Sleep (max (cl - t) 0) # SetCaseStatus cid EXPIRED #
             (case poll_location c of
                None \<Rightarrow> []
              | Some (pc, pm) \<Rightarrow>
                  [BotCall (EditMessageText pc pm (ClosedText TimeoutText cid) None)
                     (client (EditMessageText pc pm (ClosedText TimeoutText cid) None))])"
proof -
  let ?w1 = "sleep (max (cl - t) 0) w"
  have i: "id' c = cid" using g by (rule get_case_id)
  have g1: "get_case ?w1 cid = Some c" using g by (simp add: get_case_def)
  have s: "snd (schedule_expiry_check client t cid cl w) = snd (close_case client c settings True ?w1)"
    using schedule_expiry_check_open [OF g st v, of client t cl] by simp
  have a: "get_case (snd (close_case client c settings True ?w1)) cid = Some (c\<lparr>status := EXPIRED\<rparr>)"
    using g1 i by (simp add: close_case_get_case)
  have b: "trace (snd (close_case client c settings True ?w1))
      = trace w @ (Sleep (max (cl - t) 0) # SetCaseStatus cid EXPIRED #
             (case poll_location c of
                None \<Rightarrow> []
              | Some (pc, pm) \<Rightarrow>
                  [BotCall (EditMessageText pc pm (ClosedText TimeoutText cid) None)
                     (client (EditMessageText pc pm (ClosedText TimeoutText cid) None))]))"
    by (simp add: close_case_trace i split: option.splits)
  show ?thesis
    unfolding s using a new_events_eq [OF b] by simp
qed

lemma sweep_on_overdue_case:
  assumes g: "get_case w cid = Some c" and st: "status c = OPEN" and dl: "closes_at c \<le> now"
    and n: "fst (expire_overdue_cases client now w) = None"
  shows "map_option status (get_case (snd (expire_overdue_cases client now w)) cid) = Some EXPIRED"
proof -
  have i: "id' c = cid" using g by (rule get_case_id)
  have m: "c \<in> set (list_open_cases w)"
    using get_case_mem [OF g] st by (simp add: list_open_cases_def)
  have g': "get_case w (id' c) = Some c" using g i by simp
  have n': "fst (expire_loop client now (list_open_cases w) w) = None"
    using n by (simp add: expire_overdue_cases_def)
  show ?thesis
    using expire_loop_expires [OF n' m dl g'] i
    by (simp add: expire_overdue_cases_def)
qed

text \<open>
  Claim C3, as amended. When an OPEN case past its deadline is resolved, the status
  written is EXPIRED on every path: by an evaluation that a vote event triggers (any
  token; a retract only where retraction is allowed, since a refused retract evaluates
  nothing), by the timer of the case, and by the start-up sweep whenever the sweep runs
  to its end. The sweep runs to its end when the snapshots of the open cases pass the
  constructor and the transport client raises nothing but \<^verbatim>\<open>TelegramBadRequest\<close>; an
  exception ends it at the case where it is raised. After their first event, the answer
  to the voter or the sleep of the timer, the vote path and the timer path log the same
  events: the write of EXPIRED and the edit of the ballot to the same timeout text.
\<close>

theorem past_deadline_status_is_expired:
  assumes "get_case w cid = Some c" and "status c = OPEN" and "closes_at c \<le> now"
    and "ChatSettings_init (config_snapshot c) = Inr settings"
    and "CHR '':'' \<notin> set cs" and "py_int cs = Some cid"
    and "CHR '':'' \<notin> set tok"
    and "tok = ''retract'' \<longrightarrow> allow_vote_retract settings"
  shows
    "get_case (snd (evaluate client (VoteEvent now (vote_callback cs tok voter)) w)) cid
       = Some (c\<lparr>status := EXPIRED\<rparr>)
   \<and> get_case (snd (evaluate client (TimerFired t cid cl) w)) cid
       = Some (c\<lparr>status := EXPIRED\<rparr>)
   \<and> (list_all (\<lambda>r. field_bounds (config_snapshot r) \<and> literals_ok (config_snapshot r))
          (list_open_cases w)
        \<and> (\<forall>call. client call \<noteq> OtherError)
        \<longrightarrow> map_option status (get_case (snd (evaluate client (StartupSweep now) w)) cid)
              = Some EXPIRED)
   \<and> (fst (evaluate client (StartupSweep now) w) = None
        \<longrightarrow> map_option status (get_case (snd (evaluate client (StartupSweep now) w)) cid)
              = Some EXPIRED)
   \<and> drop 1 (new_events w (snd (evaluate client (VoteEvent now (vote_callback cs tok voter)) w)))
       = drop 1 (new_events w (snd (evaluate client (TimerFired t cid cl) w)))
   \<and> drop 1 (new_events w (snd (evaluate client (TimerFired t cid cl) w)))
       = SetCaseStatus cid EXPIRED #
         (case poll_location c of
            None \<Rightarrow> []
          | Some (pc, pm) \<Rightarrow>
              [BotCall (EditMessageText pc pm (ClosedText TimeoutText cid) None)
                 (client (EditMessageText pc pm (ClosedText TimeoutText cid) None))])"
proof -
  note a = vote_past_deadline [OF assms, of client voter]
  note b = timer_on_open_case [OF assms(1,2,4), of client t cl]
  have d: "map_option status (get_case (snd (evaluate client (StartupSweep now) w)) cid)
              = Some EXPIRED"
    if "fst (evaluate client (StartupSweep now) w) = None"
    using sweep_on_overdue_case [OF assms(1,2,3), of client] that by simp
  have c: "map_option status (get_case (snd (evaluate client (StartupSweep now) w)) cid)
              = Some EXPIRED"
    if "list_all (\<lambda>r. field_bounds (config_snapshot r) \<and> literals_ok (config_snapshot r))
          (list_open_cases w)"
      and "\<forall>call. client call \<noteq> OtherError"
  proof -
    have "fst (evaluate client (StartupSweep now) w) = None"
      using expire_loop_completes [OF that, of now w] by (simp add: expire_overdue_cases_def)
    then show ?thesis by (rule d)
  qed
  from a b c d show ?thesis by simp
qed

text \<open>
  The hypotheses hold for the open case of the test, evaluated after its deadline by a
  vote, by its timer and by the sweep.
\<close>

theorem past_deadline_status_is_expired_witness:
  "get_case (store_of [case_record OPEN 100 test_settings] []) 1
     = Some (case_record OPEN 100 test_settings)
   \<and> status (case_record OPEN 100 test_settings) = OPEN
   \<and> closes_at (case_record OPEN 100 test_settings) \<le> 200
   \<and> ChatSettings_init (config_snapshot (case_record OPEN 100 test_settings)) = Inr test_settings
   \<and> CHR '':'' \<notin> set ''1'' \<and> py_int ''1'' = Some 1 \<and> CHR '':'' \<notin> set ''not''
   \<and> ''not'' \<noteq> ''retract''
   \<and> list_all (\<lambda>r. field_bounds (config_snapshot r) \<and> literals_ok (config_snapshot r))
        (list_open_cases (store_of [case_record OPEN 100 test_settings] []))
   \<and> fst (evaluate all_succeed (StartupSweep 200)
            (store_of [case_record OPEN 100 test_settings] [])) = None
   \<and> map_option status
        (get_case (snd (evaluate all_succeed (VoteEvent 200 (vote_callback ''1'' ''not'' 7))
                          (store_of [case_record OPEN 100 test_settings] []))) 1)
      = Some EXPIRED
   \<and> map_option status
        (get_case (snd (evaluate all_succeed (TimerFired 100 1 100)
                          (store_of [case_record OPEN 100 test_settings] []))) 1)
      = Some EXPIRED
   \<and> map_option status
        (get_case (snd (evaluate all_succeed (StartupSweep 200)
                          (store_of [case_record OPEN 100 test_settings] []))) 1)
      = Some EXPIRED"
proof -
  let ?c = "case_record OPEN 100 test_settings"
  let ?W = "store_of [?c] []"
  have g: "get_case ?W 1 = Some ?c" by (simp add: get_case_def store_of_def case_record_def)
  have st: "status ?c = OPEN" and dl: "closes_at ?c \<le> 200" by (simp_all add: case_record_def)
  have v: "ChatSettings_init (config_snapshot ?c) = Inr test_settings"
    by (simp add: case_record_def test_snapshot_valid)
  have colon: "CHR '':'' \<notin> set ''1''" "CHR '':'' \<notin> set ''not''" by simp_all
  have r: "''not'' = ''retract'' \<longrightarrow> allow_vote_retract test_settings" by simp
  have va: "list_all (\<lambda>r. field_bounds (config_snapshot r) \<and> literals_ok (config_snapshot r))
        (list_open_cases ?W)"
    by (simp add: list_open_cases_def store_of_def case_record_def test_settings_def
        default_settings_def field_bounds_def literals_ok_def)
  have ok: "\<forall>call. all_succeed call \<noteq> OtherError" by (simp add: all_succeed_def)
  have n: "fst (evaluate all_succeed (StartupSweep 200) ?W) = None"
    using expire_loop_completes [OF va ok, of 200 ?W] by (simp add: expire_overdue_cases_def)
  note t = past_deadline_status_is_expired [OF g st dl v colon(1) py_int_1 colon(2) r,
      of all_succeed 7 100 100]
  from t va ok n g st dl v colon py_int_1 show ?thesis by simp
qed

text \<open>
  The claim as stated says that the vote-triggered evaluation sets REJECTED. It sets
  EXPIRED: a Spam vote at time 200 on the case that closed at time 100.
\<close>

theorem vote_after_deadline_sets_expired:
  "map_option status
     (get_case (snd (evaluate all_succeed (VoteEvent 200 (vote_callback ''1'' ''spam'' 7))
                       (store_of [case_record OPEN 100 test_settings] []))) 1)
   = Some EXPIRED
   \<and> map_option status
     (get_case (snd (evaluate all_succeed (VoteEvent 200 (vote_callback ''1'' ''spam'' 7))
                       (store_of [case_record OPEN 100 test_settings] []))) 1)
   \<noteq> Some REJECTED"
proof -
  let ?c = "case_record OPEN 100 test_settings"
  let ?W = "store_of [?c] []"
  have g: "get_case ?W 1 = Some ?c" by (simp add: get_case_def store_of_def case_record_def)
  have st: "status ?c = OPEN" and dl: "closes_at ?c \<le> 200" by (simp_all add: case_record_def)
  have v: "ChatSettings_init (config_snapshot ?c) = Inr test_settings"
    by (simp add: case_record_def test_snapshot_valid)
  have colon: "CHR '':'' \<notin> set ''1''" "CHR '':'' \<notin> set ''spam''" by simp_all
  have r: "''spam'' = ''retract'' \<longrightarrow> allow_vote_retract test_settings" by simp
  show ?thesis
    using vote_past_deadline [OF g st dl v colon(1) py_int_1 colon(2) r, of all_succeed 7]
    by simp
qed

section \<open>Terminal states\<close>



section \<open>Commit before enforcement\<close>

text \<open>
  The order of the events of one evaluation: either they are free of enforcement (only
  answers, sleeps, ballot edits and status writes), or the evaluation confirms an OPEN
  case \<open>k\<close>, and then its events are the answer to the voter, the write of CONFIRMED
  for \<open>k\<close>, the entry into enforcement for \<open>k\<close>, and after that the enforcement actions;
  the store holds CONFIRMED for \<open>k\<close> afterwards. An evaluation that starts on a store
  where the case is already terminal reads that status and does not enter enforcement.
\<close>

lemma no_second_enforcement:
  assumes g: "get_case w k = Some c" and t: "status c \<noteq> OPEN"
  shows "EnforceActions k \<notin> set (new_events w (snd (evaluate client e w)))"
proof -
  consider (quiet) "list_all (\<lambda>e. quiet_event e \<or> status_write e)
                      (new_events w (snd (evaluate client e w)))"
    | (confirm) j c0 rest where "get_case w j = Some c0" "status c0 = OPEN"
        "new_events w (snd (evaluate client e w))
           = Answer VoteRecorded False # SetCaseStatus j CONFIRMED # EnforceActions j # rest"
        "list_all action_event rest"
    using evaluate_events [of w client e] by blast
  then show ?thesis
  proof cases
    case quiet
    then show ?thesis by (auto simp add: list_all_iff)
  next
    case confirm
    have "j \<noteq> k" using confirm(1,2) g t by auto
    then show ?thesis
      using action_no_marker [OF confirm(4), of k] by (simp add: confirm(3))
  qed
qed

lemma enforcement_follows_commit:
  "list_all (\<lambda>e. quiet_event e \<or> status_write e) (new_events w (snd (evaluate client e w)))
   \<or> (\<exists>k c rest.
         get_case w k = Some c \<and> status c = OPEN
         \<and> new_events w (snd (evaluate client e w))
             = Answer VoteRecorded False # SetCaseStatus k CONFIRMED # EnforceActions k # rest
         \<and> list_all action_event rest
         \<and> get_case (snd (evaluate client e w)) k = Some (c\<lparr>status := CONFIRMED\<rparr>)
         \<and> (\<forall>client2 e2.
               EnforceActions k
                 \<notin> set (new_events (snd (evaluate client e w))
                          (snd (evaluate client2 e2 (snd (evaluate client e w)))))))"
proof -
  let ?w' = "snd (evaluate client e w)"
  consider (quiet) "list_all (\<lambda>e. quiet_event e \<or> status_write e) (new_events w ?w')"
    | (confirm) k c rest where "get_case w k = Some c" "status c = OPEN"
        "get_case ?w' k = Some (c\<lparr>status := CONFIRMED\<rparr>)"
        "new_events w ?w'
           = Answer VoteRecorded False # SetCaseStatus k CONFIRMED # EnforceActions k # rest"
        "list_all action_event rest"
    using evaluate_events [of w client e] by blast
  then show ?thesis
  proof cases
    case quiet
    then show ?thesis by simp
  next
    case confirm
    have "\<forall>client2 e2. EnforceActions k \<notin> set (new_events ?w' (snd (evaluate client2 e2 ?w')))"
      using no_second_enforcement [OF confirm(3)] by simp
    then have "\<exists>k c rest.
         get_case w k = Some c \<and> status c = OPEN
         \<and> new_events w ?w'
             = Answer VoteRecorded False # SetCaseStatus k CONFIRMED # EnforceActions k # rest
         \<and> list_all action_event rest
         \<and> get_case ?w' k = Some (c\<lparr>status := CONFIRMED\<rparr>)
         \<and> (\<forall>client2 e2.
               EnforceActions k \<notin> set (new_events ?w' (snd (evaluate client2 e2 ?w'))))"
      by (intro exI [of _ k] exI [of _ c] exI [of _ rest] conjI confirm)
    then show ?thesis by (rule disjI2)
  qed
qed

text \<open>
  Claim C8. The status CONFIRMED must be committed before enforcement begins, so that
  a racing second resolution observes the terminal status and does not apply
  enforcement again. The code commits the status first, but the test that guards a
  resolution, \<^verbatim>\<open>if case.status != CaseStatus.OPEN: return\<close> in \<^verbatim>\<open>_maybe_resolve\<close>, reads the
  case object that \<^verbatim>\<open>handle_vote_callback\<close> fetched before it wrote the vote, not the
  store. Two Spam callbacks on the open case 1 of the test (target 3, two Spam votes
  stored), by the voters 7 and 8, run as two tasks. Callback 8 reads the case, OPEN,
  writes its vote and is suspended in \<^verbatim>\<open>await callback.answer(...)\<close>; what remains of it
  is \<^verbatim>\<open>_refresh_poll\<close> on the object it read. Callback 7 then runs to its end: it
  commits CONFIRMED and enforces. Callback 8 resumes: its object still says OPEN, so it
  writes CONFIRMED and enters enforcement a second time, deleting, banning and
  blacklisting again, although the store held CONFIRMED when it resumed.
\<close>

theorem stale_case_object_enforces_twice:
  "get_case
     (store_of [case_record OPEN 100 test_settings]
        [\<lparr>case_id = 1, voter_id = 5, decision = SPAM, updated_at = 10\<rparr>,
         \<lparr>case_id = 1, voter_id = 6, decision = SPAM, updated_at = 20\<rparr>]) 1
     = Some (case_record OPEN 100 test_settings)
   \<and> handle_vote_callback all_succeed 50 (vote_callback ''1'' ''spam'' 8)
       (store_of [case_record OPEN 100 test_settings]
          [\<lparr>case_id = 1, voter_id = 5, decision = SPAM, updated_at = 10\<rparr>,
           \<lparr>case_id = 1, voter_id = 6, decision = SPAM, updated_at = 20\<rparr>])
     = refresh_poll all_succeed 50 (case_record OPEN 100 test_settings) test_settings
         (answer VoteRecorded False
            (record_vote 1 8 SPAM 50
               (store_of [case_record OPEN 100 test_settings]
                  [\<lparr>case_id = 1, voter_id = 5, decision = SPAM, updated_at = 10\<rparr>,
                   \<lparr>case_id = 1, voter_id = 6, decision = SPAM, updated_at = 20\<rparr>])))
   \<and> new_events
       (answer VoteRecorded False
          (record_vote 1 8 SPAM 50
             (store_of [case_record OPEN 100 test_settings]
                [\<lparr>case_id = 1, voter_id = 5, decision = SPAM, updated_at = 10\<rparr>,
                 \<lparr>case_id = 1, voter_id = 6, decision = SPAM, updated_at = 20\<rparr>])))
       (snd (handle_vote_callback all_succeed 50 (vote_callback ''1'' ''spam'' 7)
          (answer VoteRecorded False
             (record_vote 1 8 SPAM 50
                (store_of [case_record OPEN 100 test_settings]
                   [\<lparr>case_id = 1, voter_id = 5, decision = SPAM, updated_at = 10\<rparr>,
                    \<lparr>case_id = 1, voter_id = 6, decision = SPAM, updated_at = 20\<rparr>])))))
     = [Answer VoteRecorded False, SetCaseStatus 1 CONFIRMED, EnforceActions 1,
        BotCall (DeleteMessage (- 123) 42) Success,
        BotCall (BanChatMember (- 123) 1001) Success,
        BlacklistAdd (- 123) 1001 (Some ''Case #1'')]
   \<and> map_option status
       (get_case
          (snd (handle_vote_callback all_succeed 50 (vote_callback ''1'' ''spam'' 7)
             (answer VoteRecorded False
                (record_vote 1 8 SPAM 50
                   (store_of [case_record OPEN 100 test_settings]
                      [\<lparr>case_id = 1, voter_id = 5, decision = SPAM, updated_at = 10\<rparr>,
                       \<lparr>case_id = 1, voter_id = 6, decision = SPAM, updated_at = 20\<rparr>])))))
          1)
     = Some CONFIRMED
   \<and> new_events
       (snd (handle_vote_callback all_succeed 50 (vote_callback ''1'' ''spam'' 7)
          (answer VoteRecorded False
             (record_vote 1 8 SPAM 50
                (store_of [case_record OPEN 100 test_settings]
                   [\<lparr>case_id = 1, voter_id = 5, decision = SPAM, updated_at = 10\<rparr>,
                    \<lparr>case_id = 1, voter_id = 6, decision = SPAM, updated_at = 20\<rparr>])))))
       (snd (refresh_poll all_succeed 50 (case_record OPEN 100 test_settings) test_settings
          (snd (handle_vote_callback all_succeed 50 (vote_callback ''1'' ''spam'' 7)
             (answer VoteRecorded False
                (record_vote 1 8 SPAM 50
                   (store_of [case_record OPEN 100 test_settings]
                      [\<lparr>case_id = 1, voter_id = 5, decision = SPAM, updated_at = 10\<rparr>,
                       \<lparr>case_id = 1, voter_id = 6, decision = SPAM, updated_at = 20\<rparr>])))))))
     = [SetCaseStatus 1 CONFIRMED, EnforceActions 1,
        BotCall (DeleteMessage (- 123) 42) Success,
        BotCall (BanChatMember (- 123) 1001) Success,
        BlacklistAdd (- 123) 1001 (Some ''Case #1'')]"
proof -
  let ?c = "case_record OPEN 100 test_settings"
  let ?W = "store_of [?c]
        [\<lparr>case_id = 1, voter_id = 5, decision = SPAM, updated_at = 10\<rparr>,
         \<lparr>case_id = 1, voter_id = 6, decision = SPAM, updated_at = 20\<rparr>]"
  let ?wb = "answer VoteRecorded False (record_vote 1 8 SPAM 50 ?W)"
  let ?wa = "answer VoteRecorded False (record_vote 1 7 SPAM 50 ?wb)"
  have g: "get_case ?W 1 = Some ?c" by (simp add: get_case_def store_of_def case_record_def)
  have gb: "get_case ?wb 1 = Some ?c" using g by (simp add: get_case_def)
  have st: "status ?c = OPEN" by (simp add: case_record_def)
  have v: "ChatSettings_init (config_snapshot ?c) = Inr test_settings"
    by (simp add: case_record_def test_snapshot_valid)
  have hb: "handle_vote_callback all_succeed 50 (vote_callback ''1'' ''spam'' 8) ?W
      = refresh_poll all_succeed 50 ?c test_settings ?wb"
    using handle_vote_callback_open [of "vote_callback ''1'' ''spam'' 8" "''1''" "''spam''" 1 ?W ?c
        test_settings all_succeed 50] py_int_1 g st v
    by (simp add: vote_callback_def)
  have ha: "handle_vote_callback all_succeed 50 (vote_callback ''1'' ''spam'' 7) ?wb
      = refresh_poll all_succeed 50 ?c test_settings ?wa"
    using handle_vote_callback_open [of "vote_callback ''1'' ''spam'' 7" "''1''" "''spam''" 1 ?wb ?c
        test_settings all_succeed 50] py_int_1 gb st v
    by (simp add: vote_callback_def)
  have wa: "snd (refresh_poll all_succeed 50 ?c test_settings ?wa)
      = \<lparr> cases = [case_record CONFIRMED 100 test_settings],
          votes = [\<lparr>case_id = 1, voter_id = 5, decision = SPAM, updated_at = 10\<rparr>,
                   \<lparr>case_id = 1, voter_id = 6, decision = SPAM, updated_at = 20\<rparr>,
                   \<lparr>case_id = 1, voter_id = 8, decision = SPAM, updated_at = 50\<rparr>,
                   \<lparr>case_id = 1, voter_id = 7, decision = SPAM, updated_at = 50\<rparr>],
          blacklist = [\<lparr>bl_chat_id = - 123, bl_user_id = 1001, bl_reason = Some ''Case #1'',
                        bl_added_at = 50\<rparr>],
          trace = [Answer VoteRecorded False, Answer VoteRecorded False,
                   SetCaseStatus 1 CONFIRMED, EnforceActions 1,
                   BotCall (DeleteMessage (- 123) 42) Success,
                   BotCall (BanChatMember (- 123) 1001) Success,
                   BlacklistAdd (- 123) 1001 (Some ''Case #1'')] \<rparr>"
    by (simp add: refresh_poll_def maybe_resolve_def confirm_case_def enforce_actions_def
        Let_def get_votes_def record_vote_def answer_def store_of_def case_record_def
        participation_met_def test_settings_def default_settings_def poll_location_def
        set_case_status_def try_call_def call_def ban_user_def blacklist_add_def
        all_succeed_def str_int_1)
  have a: "new_events ?wb (snd (refresh_poll all_succeed 50 ?c test_settings ?wa))
      = [Answer VoteRecorded False, SetCaseStatus 1 CONFIRMED, EnforceActions 1,
        BotCall (DeleteMessage (- 123) 42) Success,
        BotCall (BanChatMember (- 123) 1001) Success,
        BlacklistAdd (- 123) 1001 (Some ''Case #1'')]"
    unfolding wa by (simp add: new_events_def store_of_def)
  have b: "map_option status (get_case (snd (refresh_poll all_succeed 50 ?c test_settings ?wa)) 1)
      = Some CONFIRMED"
    unfolding wa by (simp add: get_case_def case_record_def)
  have c: "new_events (snd (refresh_poll all_succeed 50 ?c test_settings ?wa))
       (snd (refresh_poll all_succeed 50 ?c test_settings
          (snd (refresh_poll all_succeed 50 ?c test_settings ?wa))))
     = [SetCaseStatus 1 CONFIRMED, EnforceActions 1,
        BotCall (DeleteMessage (- 123) 42) Success,
        BotCall (BanChatMember (- 123) 1001) Success,
        BlacklistAdd (- 123) 1001 (Some ''Case #1'')]"
    unfolding wa
    by (simp add: refresh_poll_def maybe_resolve_def confirm_case_def enforce_actions_def
        Let_def get_votes_def case_record_def
        participation_met_def test_settings_def default_settings_def poll_location_def
        set_case_status_def try_call_def call_def ban_user_def blacklist_add_def
        all_succeed_def str_int_1 new_events_def)
  from g hb a b c show ?thesis
    by (simp only: ha simp_thms)
qed

end
